theory Spec2Isabelle
  imports Main "HOL-Library.Word"
begin

section \<open>The deadlock lab: bank.c and common.h\<close>

text \<open>
  The bank keeps a fixed array of accounts, each with its own mutex, and runs worker
  threads that move money between two accounts under one of four locking strategies
  (\<^verbatim>\<open>transfer_naive\<close>, \<^verbatim>\<open>transfer_timeout\<close>, \<^verbatim>\<open>transfer_ordered\<close>,
  \<^verbatim>\<open>transfer_trylock\<close>).  The C functions are embedded as HOL functions on an explicit
  state.  A C \<^verbatim>\<open>int\<close> is a 32-bit word (arithmetic wraps around), a \<^verbatim>\<open>uint64_t\<close> a
  64-bit word.  A pointer \<^verbatim>\<open>account_t *\<close> into the array is the index of the account.
\<close>

subsection \<open>Data\<close>

type_synonym int32 = "32 word"
type_synonym uint64 = "64 word"

text \<open>A thread is named by a number; it stands for the value of \<^verbatim>\<open>pthread_self()\<close>.\<close>

type_synonym tid = nat

text \<open>
  \<^verbatim>\<open>account_t\<close> of common.h.  The field \<^verbatim>\<open>id\<close> is called \<open>acc_id\<close> here.
  The mutex is the thread that holds it, if any.
\<close>

record account_t =
  acc_id :: int32
  balance :: int32
  lock :: "tid option"

text \<open>\<^verbatim>\<open>struct stats\<close>, the four global counters.\<close>

record stats_t =
  successful_transfers :: uint64
  failed_transfers :: uint64
  deadlock_detections :: uint64
  retries :: uint64

datatype counter = Successful_transfers | Failed_transfers | Deadlock_detections | Retries

text \<open>
  What a thread does to the world outside its own locals: library calls on mutexes,
  sleeping, the two balance updates and the atomic increments.  \<open>Call m f t a\<close> marks
  the worker calling the transfer function of mode \<open>m\<close> with accounts \<open>f\<close>, \<open>t\<close> and
  amount \<open>a\<close>.
\<close>

datatype event =
    Mutex_lock nat
  | Mutex_unlock nat
  | Usleep nat
  | Balance_sub nat int32
  | Balance_add nat int32
  | Fetch_add counter
  | Call int nat nat int32

text \<open>The shared memory: the account array, the global \<^verbatim>\<open>stats\<close>, and the events so far.\<close>

record state =
  accounts :: "account_t list"
  stats :: stats_t
  trace :: "event list"

definition NUM_ACCOUNTS :: nat where "NUM_ACCOUNTS = 10"
definition NUM_THREADS :: int where "NUM_THREADS = 8"
definition TRANSFERS_PER_THREAD :: int where "TRANSFERS_PER_THREAD = 1000"
definition INITIAL_BALANCE :: int32 where "INITIAL_BALANCE = 1000"

text \<open>\<^verbatim>\<open>ETIMEDOUT\<close> of errno.h (its value on Linux).\<close>

definition ETIMEDOUT :: int where "ETIMEDOUT = 110"

subsection \<open>Primitives\<close>

definition log_event :: "event \<Rightarrow> state \<Rightarrow> state" where
  "log_event e s = s\<lparr>trace := trace s @ [e]\<rparr>"

text \<open>
  \<^verbatim>\<open>pthread_mutex_lock\<close>: returns once the calling thread holds the mutex.  While another
  thread (or the caller itself: the mutexes are not recursive) holds it, the call does
  not return; with nobody else running that is forever, the value \<open>None\<close>.
\<close>

definition pthread_mutex_lock :: "tid \<Rightarrow> nat \<Rightarrow> state \<Rightarrow> state option" where
  "pthread_mutex_lock t a s =
     (if a < length (accounts s) \<and> lock (accounts s ! a) = None
      then Some (log_event (Mutex_lock a)
                  (s\<lparr>accounts := (accounts s)[a := (accounts s ! a)\<lparr>lock := Some t\<rparr>]\<rparr>))
      else None)"

text \<open>\<^verbatim>\<open>pthread_mutex_unlock\<close>, called by the holder only: the mutex becomes free.\<close>

definition pthread_mutex_unlock :: "tid \<Rightarrow> nat \<Rightarrow> state \<Rightarrow> state" where
  "pthread_mutex_unlock t a s =
     log_event (Mutex_unlock a)
       (s\<lparr>accounts := (accounts s)[a := (accounts s ! a)\<lparr>lock := None\<rparr>]\<rparr>)"

definition usleep :: "nat \<Rightarrow> state \<Rightarrow> state" where
  "usleep us s = log_event (Usleep us) s"

text \<open>A store to \<^verbatim>\<open>p->balance\<close>.\<close>

definition set_balance :: "nat \<Rightarrow> int32 \<Rightarrow> state \<Rightarrow> state" where
  "set_balance a v s = s\<lparr>accounts := (accounts s)[a := (accounts s ! a)\<lparr>balance := v\<rparr>]\<rparr>"

text \<open>
  \<^verbatim>\<open>p->balance -= amount\<close> and \<^verbatim>\<open>p->balance += amount\<close>: the balance is read, and the
  new value is stored.
\<close>

definition balance_sub :: "nat \<Rightarrow> int32 \<Rightarrow> state \<Rightarrow> state" where
  "balance_sub a amount s =
     log_event (Balance_sub a amount) (set_balance a (balance (accounts s ! a) - amount) s)"

definition balance_add :: "nat \<Rightarrow> int32 \<Rightarrow> state \<Rightarrow> state" where
  "balance_add a amount s =
     log_event (Balance_add a amount) (set_balance a (balance (accounts s ! a) + amount) s)"

text \<open>\<^verbatim>\<open>__sync_fetch_and_add(&stats.c, 1)\<close>.\<close>

fun bump :: "counter \<Rightarrow> stats_t \<Rightarrow> stats_t" where
  "bump Successful_transfers st = st\<lparr>successful_transfers := successful_transfers st + 1\<rparr>"
| "bump Failed_transfers st = st\<lparr>failed_transfers := failed_transfers st + 1\<rparr>"
| "bump Deadlock_detections st = st\<lparr>deadlock_detections := deadlock_detections st + 1\<rparr>"
| "bump Retries st = st\<lparr>retries := retries st + 1\<rparr>"

definition fetch_add :: "counter \<Rightarrow> state \<Rightarrow> state" where
  "fetch_add c s = log_event (Fetch_add c) (s\<lparr>stats := bump c (stats s)\<rparr>)"

subsection \<open>The transfer functions\<close>

text \<open>\<^verbatim>\<open>transfer_naive\<close> (bank.c, lines 51 to 70).\<close>

definition transfer_naive :: "tid \<Rightarrow> nat \<Rightarrow> nat \<Rightarrow> int32 \<Rightarrow> state \<Rightarrow> state option" where
  "transfer_naive t from to amount s =
     (case pthread_mutex_lock t from s of
        None \<Rightarrow> None
      | Some s1 \<Rightarrow>
          (case pthread_mutex_lock t to (usleep 1 s1) of
             None \<Rightarrow> None
           | Some s2 \<Rightarrow>
               Some (fetch_add Successful_transfers
                      (pthread_mutex_unlock t from
                        (pthread_mutex_unlock t to
                          (balance_add to amount
                            (balance_sub from amount s2)))))))"

text \<open>
  \<^verbatim>\<open>mutex_trylock_timed\<close> (lines 83 to 86): the body is the placeholder
  \<^verbatim>\<open>return ETIMEDOUT;\<close>.  It returns the value and leaves the state as it was.
\<close>

definition mutex_trylock_timed :: "tid \<Rightarrow> nat \<Rightarrow> int \<Rightarrow> state \<Rightarrow> int \<times> state" where
  "mutex_trylock_timed t a timeout_ms s = (ETIMEDOUT, s)"

text \<open>\<^verbatim>\<open>transfer_timeout\<close> (lines 104 to 133).\<close>

definition transfer_timeout :: "tid \<Rightarrow> nat \<Rightarrow> nat \<Rightarrow> int32 \<Rightarrow> state \<Rightarrow> int \<times> state" where
  "transfer_timeout t from to amount s =
     (case mutex_trylock_timed t from 100 s of
        (ret1, s1) \<Rightarrow>
          if ret1 = ETIMEDOUT then (- 1, s1)
          else
            (case mutex_trylock_timed t to 100 (usleep 1 s1) of
               (ret2, s2) \<Rightarrow>
                 if ret2 = ETIMEDOUT then (- 1, s2)
                 else
                   (0, fetch_add Successful_transfers
                         (pthread_mutex_unlock t from
                           (pthread_mutex_unlock t to
                             (balance_add to amount
                               (balance_sub from amount s2)))))))"

text \<open>
  The body of \<^verbatim>\<open>transfer_timeout\<close> once more, with the helper it calls as a
  parameter: the same statements, for any \<^verbatim>\<open>mutex_trylock_timed\<close>.
\<close>

definition transfer_timeout_with ::
  "(tid \<Rightarrow> nat \<Rightarrow> int \<Rightarrow> state \<Rightarrow> int \<times> state) \<Rightarrow>
   tid \<Rightarrow> nat \<Rightarrow> nat \<Rightarrow> int32 \<Rightarrow> state \<Rightarrow> int \<times> state" where
  "transfer_timeout_with helper t from to amount s =
     (case helper t from 100 s of
        (ret1, s1) \<Rightarrow>
          if ret1 = ETIMEDOUT then (- 1, s1)
          else
            (case helper t to 100 (usleep 1 s1) of
               (ret2, s2) \<Rightarrow>
                 if ret2 = ETIMEDOUT then (- 1, s2)
                 else
                   (0, fetch_add Successful_transfers
                         (pthread_mutex_unlock t from
                           (pthread_mutex_unlock t to
                             (balance_add to amount
                               (balance_sub from amount s2)))))))"






text \<open>\<^verbatim>\<open>transfer_ordered\<close> (lines 153 to 170): the body is the one atomic increment.\<close>

definition transfer_ordered :: "tid \<Rightarrow> nat \<Rightarrow> nat \<Rightarrow> int32 \<Rightarrow> state \<Rightarrow> state" where
  "transfer_ordered t from to amount s = fetch_add Successful_transfers s"

text \<open>\<^verbatim>\<open>transfer_trylock\<close> (lines 194 to 198): the body is \<^verbatim>\<open>return -1;\<close>.\<close>

definition transfer_trylock :: "tid \<Rightarrow> nat \<Rightarrow> nat \<Rightarrow> int32 \<Rightarrow> state \<Rightarrow> int \<times> state" where
  "transfer_trylock t from to amount s = (- 1, s)"

subsection \<open>The worker\<close>

text \<open>
  \<^verbatim>\<open>struct worker_args\<close>.  The pointer \<^verbatim>\<open>accounts\<close> is the array of the state.
  \<^verbatim>\<open>num_accounts\<close> is a count (\<^verbatim>\<open>main\<close> passes \<^verbatim>\<open>NUM_ACCOUNTS\<close>).
\<close>

record worker_args =
  num_accounts :: nat
  mode :: int
  transfers :: int

definition max_retries :: int where "max_retries = 1000"

text \<open>
  The retry loop of mode 1 (lines 224 to 231), entered with the current
  \<^verbatim>\<open>retry_count\<close>.  Each evaluation of the loop condition calls \<^verbatim>\<open>transfer_timeout\<close>.
\<close>

function timeout_loop :: "tid \<Rightarrow> nat \<Rightarrow> nat \<Rightarrow> int32 \<Rightarrow> int \<Rightarrow> state \<Rightarrow> state" where
  "timeout_loop t from to amount retry_count s =
     (case transfer_timeout t from to amount (log_event (Call 1 from to amount) s) of
        (ret, s1) \<Rightarrow>
          if ret \<noteq> 0 then
            (let s2 = fetch_add Retries s1; retry_count' = retry_count + 1 in
             if retry_count' > max_retries then fetch_add Failed_transfers s2
             else timeout_loop t from to amount retry_count' (usleep (10 * 1000) s2))
          else s1)"
  by pat_completeness auto
termination
  by (relation "measure (\<lambda>(t, from, to, amount, retry_count, s). nat (max_retries - retry_count))")
    auto

text \<open>
  The retry loop of mode 3 (lines 235 to 242).  \<^verbatim>\<open>rand()\<close> is an input: the list holds
  the values that the calls of \<^verbatim>\<open>rand()\<close> by this thread return, in order.  The loop
  returns the values it has not used.  When the list runs out the result is \<open>None\<close>.
\<close>

function trylock_loop ::
  "tid \<Rightarrow> nat \<Rightarrow> nat \<Rightarrow> int32 \<Rightarrow> int \<Rightarrow> nat list \<Rightarrow> state \<Rightarrow> (nat list \<times> state) option" where
  "trylock_loop t from to amount retry_count rs s =
     (case transfer_trylock t from to amount (log_event (Call 3 from to amount) s) of
        (ret, s1) \<Rightarrow>
          if ret \<noteq> 0 then
            (let s2 = fetch_add Retries s1; retry_count' = retry_count + 1 in
             if retry_count' > max_retries then Some (rs, fetch_add Failed_transfers s2)
             else
               (case rs of
                  [] \<Rightarrow> None
                | r # rs' \<Rightarrow>
                    trylock_loop t from to amount retry_count' rs' (usleep (r mod 1000000) s2)))
          else Some (rs, s1))"
  by pat_completeness auto
termination
  by (relation "measure (\<lambda>(t, from, to, amount, retry_count, rs, s). nat (max_retries - retry_count))")
    auto

declare timeout_loop.simps [simp del]
declare trylock_loop.simps [simp del]

text \<open>
  The \<^verbatim>\<open>for\<close> loop of \<^verbatim>\<open>worker\<close> (lines 204 to 244), entered with the loop variable \<open>i\<close>.
  \<open>None\<close>: the thread does not return from here (a blocking lock that is never
  granted, a division by zero in \<^verbatim>\<open>rand() % num_accounts\<close>), or the list of random
  values has run out.
\<close>

function worker_loop :: "tid \<Rightarrow> worker_args \<Rightarrow> int \<Rightarrow> nat list \<Rightarrow> state \<Rightarrow> state option" where
  "worker_loop t args i rs s =
     (if i < transfers args then
        (case rs of
           r1 # r2 # rs1 \<Rightarrow>
             if num_accounts args = 0 then None
             else
               (let from_id = r1 mod num_accounts args;
                    to_id = r2 mod num_accounts args in
                if from_id = to_id then worker_loop t args ((i - 1) + 1) rs1 s
                else
                  (case rs1 of
                     [] \<Rightarrow> None
                   | r3 # rs2 \<Rightarrow>
                       (let amount = 1 + word_of_nat (r3 mod 10) in
                        if mode args = 0 then
                          (case transfer_naive t from_id to_id amount
                                  (log_event (Call 0 from_id to_id amount) s) of
                             None \<Rightarrow> None
                           | Some s1 \<Rightarrow> worker_loop t args (i + 1) rs2 s1)
                        else if mode args = 1 then
                          worker_loop t args (i + 1) rs2 (timeout_loop t from_id to_id amount 0 s)
                        else if mode args = 2 then
                          worker_loop t args (i + 1) rs2
                            (transfer_ordered t from_id to_id amount
                               (log_event (Call 2 from_id to_id amount) s))
                        else if mode args = 3 then
                          (case trylock_loop t from_id to_id amount 0 rs2 s of
                             None \<Rightarrow> None
                           | Some (rs3, s1) \<Rightarrow> worker_loop t args (i + 1) rs3 s1)
                        else worker_loop t args (i + 1) rs2 s)))
         | _ \<Rightarrow> None)
      else Some s)"
  by pat_completeness auto
termination
proof -
  have len: "length ds' \<le> length ds"
    if "trylock_loop t a b am rc ds s0 = Some (ds', s')"
    for t a b am rc ds s0 ds' s'
    using that
  proof (induction t a b am rc ds s0 rule: trylock_loop.induct)
    case (1 t a b amount retry_count ds s0)
    note unf = "1.prems" [unfolded trylock_loop.simps [of t a b amount retry_count ds s0]]
    show ?case
    proof (cases "retry_count + 1 > max_retries")
      case True
      with unf show ?thesis
        by (simp add: transfer_trylock_def)
    next
      case False
      show ?thesis
      proof (cases ds)
        case Nil
        with False unf show ?thesis
          by (simp add: transfer_trylock_def)
      next
        case (Cons r ds1)
        with False unf have step:
          "trylock_loop t a b amount (retry_count + 1) ds1
             (usleep (r mod 1000000)
               (fetch_add Retries (log_event (Call 3 a b amount) s0))) = Some (ds', s')"
          by (simp add: transfer_trylock_def)
        have "length ds' \<le> length ds1"
          by (rule "1.IH" [of "- 1" "log_event (Call 3 a b amount) s0",
                OF _ _ refl refl False Cons step])
            (simp_all add: transfer_trylock_def)
        with Cons show ?thesis
          by simp
      qed
    qed
  qed
  show ?thesis
    by (relation "measure (\<lambda>(t, args, i, rs, s). length rs)") (auto dest: len)
qed

declare worker_loop.simps [simp del]

definition worker :: "tid \<Rightarrow> worker_args \<Rightarrow> nat list \<Rightarrow> state \<Rightarrow> state option" where
  "worker t args rs s = worker_loop t args 0 rs s"

subsection \<open>common.h: creating and checking the accounts\<close>

text \<open>
  \<^verbatim>\<open>init_accounts\<close>: account \<open>i\<close> gets the id \<open>i\<close>, the initial balance and a fresh
  (free) mutex.  \<^verbatim>\<open>pthread_mutex_init\<close> is taken to succeed.
\<close>

definition init_accounts :: "nat \<Rightarrow> int32 \<Rightarrow> account_t list" where
  "init_accounts n initial_balance =
     map (\<lambda>i. \<lparr>acc_id = word_of_nat i, balance = initial_balance, lock = None\<rparr>) [0..<n]"

text \<open>Output: the stream, the format string and the arguments of each \<^verbatim>\<open>printf\<close>.\<close>

datatype stream = Stdout | Stderr
datatype printf_arg = Arg_str string | Arg_int int
type_synonym printed = "(stream \<times> string \<times> printf_arg list) list"

text \<open>\<^verbatim>\<open>verify_total\<close>: the loop adds the balances of accounts \<open>0\<close> to \<open>n - 1\<close>.\<close>

definition verify_total :: "account_t list \<Rightarrow> nat \<Rightarrow> int32 \<Rightarrow> printed \<times> int" where
  "verify_total accs n expected_total =
     (let total = foldl (\<lambda>total i. total + balance (accs ! i)) 0 [0..<n];
          out = [(Stdout, ''Total balance: $%d (expected: $%d)\<newline>'',
                   [Arg_int (sint total), Arg_int (sint expected_total)])]
      in if total \<noteq> expected_total
         then (out @ [(Stderr, ''ERROR: Balance mismatch! Money was lost or created.\<newline>'', [])], 0)
         else (out, 1))"

subsection \<open>main\<close>

text \<open>
  \<^verbatim>\<open>atoi\<close> is the C library's, \<^verbatim>\<open>(int) strtol(str, NULL, 10)\<close> with a 64-bit
  \<^verbatim>\<open>long\<close>: white space, an optional sign, then decimal digits up to the first other
  character; \<^verbatim>\<open>strtol\<close> stops at \<^verbatim>\<open>LONG_MAX\<close> and \<^verbatim>\<open>LONG_MIN\<close>, and the conversion
  to \<^verbatim>\<open>int\<close> keeps the low 32 bits.  So the result is always a value of a C \<^verbatim>\<open>int\<close>.
\<close>

definition is_space :: "char \<Rightarrow> bool" where
  "is_space c = (c = CHR '' '' \<or> (9 \<le> (of_char c :: nat) \<and> (of_char c :: nat) \<le> 13))"

definition is_digit :: "char \<Rightarrow> bool" where
  "is_digit c = (48 \<le> (of_char c :: nat) \<and> (of_char c :: nat) \<le> 57)"

fun digits_value :: "int \<Rightarrow> string \<Rightarrow> int" where
  "digits_value acc [] = acc"
| "digits_value acc (c # cs) =
     (if is_digit c then digits_value (acc * 10 + (int (of_char c) - 48)) cs else acc)"

definition LONG_MAX :: int where "LONG_MAX = 9223372036854775807"
definition LONG_MIN :: int where "LONG_MIN = - 9223372036854775808"

definition strtol :: "string \<Rightarrow> int" where
  "strtol str =
     (let v = (case dropWhile is_space str of
                 [] \<Rightarrow> 0
               | c # cs \<Rightarrow>
                   if c = CHR ''-'' then - digits_value 0 cs
                   else if c = CHR ''+'' then digits_value 0 cs
                   else digits_value 0 (c # cs))
      in if v > LONG_MAX then LONG_MAX else if v < LONG_MIN then LONG_MIN else v)"

definition atoi :: "string \<Rightarrow> int" where
  "atoi str = sint (word_of_int (strtol str) :: int32)"

text \<open>
  The locals of \<^verbatim>\<open>main\<close> that the options set (\<^verbatim>\<open>mode\<close> is \<open>main_mode\<close> here).  Each
  is a C \<^verbatim>\<open>int\<close>; the values stored are the defaults and results of \<^verbatim>\<open>atoi\<close>, all
  within 32 bits.
\<close>

record options =
  num_threads :: int
  transfers_per_thread :: int
  main_mode :: int

definition default_options :: options where
  "default_options =
     \<lparr>num_threads = NUM_THREADS, transfers_per_thread = TRANSFERS_PER_THREAD, main_mode = 0\<rparr>"

text \<open>
  The option loop (lines 257 to 273).  \<^verbatim>\<open>getopt\<close> is the C library's: the list holds,
  for each call before the one that returns \<open>-1\<close>, the character it returns and the
  string it leaves in \<^verbatim>\<open>optarg\<close>.  For an option that is not one of \<^verbatim>\<open>t\<close>, \<^verbatim>\<open>n\<close>,
  \<^verbatim>\<open>m\<close>, or that lacks its argument, \<^verbatim>\<open>getopt\<close> returns \<^verbatim>\<open>'?'\<close>.  \<open>None\<close>: the
  \<^verbatim>\<open>default\<close> branch was taken.
\<close>

fun getopt_loop :: "options \<Rightarrow> (char \<times> string) list \<Rightarrow> options option" where
  "getopt_loop opts [] = Some opts"
| "getopt_loop opts ((opt, optarg) # rest) =
     (if opt = CHR ''t'' then getopt_loop (opts\<lparr>num_threads := atoi optarg\<rparr>) rest
      else if opt = CHR ''n'' then getopt_loop (opts\<lparr>transfers_per_thread := atoi optarg\<rparr>) rest
      else if opt = CHR ''m'' then getopt_loop (opts\<lparr>main_mode := atoi optarg\<rparr>) rest
      else None)"

definition usage :: "string \<Rightarrow> printed" where
  "usage argv0 =
     [(Stderr, ''Usage: %s [-t threads] [-n transfers] [-m mode]\<newline>'', [Arg_str argv0]),
      (Stderr, ''  mode: 0=naive, 1=timeout, 2=ordered, 3=trylock\<newline>'', [])]"

text \<open>
  \<^verbatim>\<open>main\<close> up to the creation of the threads (lines 250 to 301): either the process
  exits, or the threads are to be spawned with the options read.  The state is the
  memory before and after; the account array exists from \<^verbatim>\<open>init_accounts\<close> on.
\<close>

datatype main_result = Exit int | Spawn options

definition main_start :: "string \<Rightarrow> (char \<times> string) list \<Rightarrow> state \<Rightarrow> main_result \<times> printed \<times> state" where
  "main_start argv0 getopts s =
     (case getopt_loop default_options getopts of
        None \<Rightarrow> (Exit 1, usage argv0, s)
      | Some opts \<Rightarrow>
          (let out = [(Stdout, ''=== Deadlock Lab ===\<newline>'', []), (Stdout, ''Mode: '', [])];
               threads_line =
                 [(Stdout, ''Threads: %d, Transfers per thread: %d\<newline>\<newline>'',
                    [Arg_int (num_threads opts), Arg_int (transfers_per_thread opts)])];
               s' = s\<lparr>accounts := init_accounts NUM_ACCOUNTS INITIAL_BALANCE\<rparr>
           in if main_mode opts = 0 then
                (Spawn opts, out @ [(Stdout, ''NAIVE (will deadlock)\<newline>'', [])] @ threads_line, s')
              else if main_mode opts = 1 then
                (Spawn opts, out @ [(Stdout, ''TIMEOUT (detect deadlock)\<newline>'', [])] @ threads_line, s')
              else if main_mode opts = 2 then
                (Spawn opts, out @ [(Stdout, ''ORDERED (prevent deadlock)\<newline>'', [])] @ threads_line, s')
              else if main_mode opts = 3 then
                (Spawn opts, out @ [(Stdout, ''TRYLOCK (prevent deadlock)\<newline>'', [])] @ threads_line, s')
              else (Exit 1, out @ [(Stderr, ''Invalid mode\<newline>'', [])], s)))"

text \<open>The \<^verbatim>\<open>struct worker_args\<close> that \<^verbatim>\<open>main\<close> hands to every thread (lines 296 to 301).\<close>

definition main_args :: "options \<Rightarrow> worker_args" where
  "main_args opts =
     \<lparr>num_accounts = NUM_ACCOUNTS, mode = main_mode opts, transfers = transfers_per_thread opts\<rparr>"

text \<open>The balance check that ends \<^verbatim>\<open>main\<close> (lines 334 to 341): output and exit status.\<close>

definition main_finish :: "state \<Rightarrow> printed \<times> int" where
  "main_finish s =
     (let expected_total = word_of_nat NUM_ACCOUNTS * INITIAL_BALANCE in
      case verify_total (accounts s) NUM_ACCOUNTS expected_total of
        (out, ok) \<Rightarrow>
          if ok = 0 then (out @ [(Stdout, ''FAIL: Balance check failed!\<newline>'', [])], 1)
          else (out @ [(Stdout, ''SUCCESS: All transfers completed and balances verified.\<newline>'', [])], 0))"

subsection \<open>Threads running side by side\<close>

text \<open>
  The threads of \<^verbatim>\<open>main\<close> all run \<^verbatim>\<open>worker\<close> on the same memory.  A thread is its
  place in \<^verbatim>\<open>worker\<close> and its locals; a step of a thread is one access to the shared
  memory (a mutex call, a read or a write of a balance, an atomic increment) or one
  call of \<^verbatim>\<open>rand()\<close>, and the steps of the threads interleave in any order.
  In \<^verbatim>\<open>transfer_naive\<close> the statement \<^verbatim>\<open>p->balance -= amount\<close> is two steps, the read
  into a temporary and the write.  The calls of \<^verbatim>\<open>transfer_timeout\<close>,
  \<^verbatim>\<open>transfer_ordered\<close> and \<^verbatim>\<open>transfer_trylock\<close> are one step each: as written, each
  makes at most one access to the shared memory, the atomic increment.
\<close>

datatype pc =
    Loop_test
  | Pick_from | Pick_to | Pick_amount
  | Naive_lock_from | Naive_usleep | Naive_lock_to
  | Naive_load_from | Naive_store_from | Naive_load_to | Naive_store_to
  | Naive_unlock_to | Naive_unlock_from | Naive_count
  | Timeout_call | Timeout_retries | Timeout_failed | Timeout_sleep
  | Ordered_call
  | Trylock_call | Trylock_retries | Trylock_failed | Trylock_sleep
  | Returned

record thread =
  t_pc :: pc
  t_i :: int
  t_from :: nat
  t_to :: nat
  t_amount :: int32
  t_retry_count :: int
  t_tmp :: int32

text \<open>A thread that \<^verbatim>\<open>pthread_create\<close> has made and that has not run yet.\<close>

definition new_thread :: thread where
  "new_thread =
     \<lparr>t_pc = Loop_test, t_i = 0, t_from = 0, t_to = 0, t_amount = 0, t_retry_count = 0, t_tmp = 0\<rparr>"

text \<open>
  One step of thread \<open>t\<close>.  \<open>r\<close> is the value that \<^verbatim>\<open>rand()\<close> returns if the step
  calls it.  \<open>None\<close>: the thread cannot take a step now (it waits for a mutex, or it has
  returned), or it dies dividing by zero.
\<close>

definition thread_step ::
  "worker_args \<Rightarrow> tid \<Rightarrow> nat \<Rightarrow> thread \<Rightarrow> state \<Rightarrow> (thread \<times> state) option" where
  "thread_step args t r th s =
     (case t_pc th of
        Loop_test \<Rightarrow>
          if t_i th < transfers args then Some (th\<lparr>t_pc := Pick_from\<rparr>, s)
          else Some (th\<lparr>t_pc := Returned\<rparr>, s)
      | Pick_from \<Rightarrow>
          if num_accounts args = 0 then None
          else Some (th\<lparr>t_from := r mod num_accounts args, t_pc := Pick_to\<rparr>, s)
      | Pick_to \<Rightarrow>
          if num_accounts args = 0 then None
          else
            (let to_id = r mod num_accounts args in
             if t_from th = to_id
             then Some (th\<lparr>t_to := to_id, t_i := (t_i th - 1) + 1, t_pc := Loop_test\<rparr>, s)
             else Some (th\<lparr>t_to := to_id, t_pc := Pick_amount\<rparr>, s))
      | Pick_amount \<Rightarrow>
          (let th' = th\<lparr>t_amount := 1 + word_of_nat (r mod 10), t_retry_count := 0\<rparr> in
           if mode args = 0 then Some (th'\<lparr>t_pc := Naive_lock_from\<rparr>, s)
           else if mode args = 1 then Some (th'\<lparr>t_pc := Timeout_call\<rparr>, s)
           else if mode args = 2 then Some (th'\<lparr>t_pc := Ordered_call\<rparr>, s)
           else if mode args = 3 then Some (th'\<lparr>t_pc := Trylock_call\<rparr>, s)
           else Some (th'\<lparr>t_i := t_i th + 1, t_pc := Loop_test\<rparr>, s))
      | Naive_lock_from \<Rightarrow>
          (case pthread_mutex_lock t (t_from th)
                  (log_event (Call 0 (t_from th) (t_to th) (t_amount th)) s) of
             None \<Rightarrow> None
           | Some s' \<Rightarrow> Some (th\<lparr>t_pc := Naive_usleep\<rparr>, s'))
      | Naive_usleep \<Rightarrow> Some (th\<lparr>t_pc := Naive_lock_to\<rparr>, usleep 1 s)
      | Naive_lock_to \<Rightarrow>
          (case pthread_mutex_lock t (t_to th) s of
             None \<Rightarrow> None
           | Some s' \<Rightarrow> Some (th\<lparr>t_pc := Naive_load_from\<rparr>, s'))
      | Naive_load_from \<Rightarrow>
          Some (th\<lparr>t_tmp := balance (accounts s ! t_from th), t_pc := Naive_store_from\<rparr>, s)
      | Naive_store_from \<Rightarrow>
          Some (th\<lparr>t_pc := Naive_load_to\<rparr>,
                log_event (Balance_sub (t_from th) (t_amount th))
                  (set_balance (t_from th) (t_tmp th - t_amount th) s))
      | Naive_load_to \<Rightarrow>
          Some (th\<lparr>t_tmp := balance (accounts s ! t_to th), t_pc := Naive_store_to\<rparr>, s)
      | Naive_store_to \<Rightarrow>
          Some (th\<lparr>t_pc := Naive_unlock_to\<rparr>,
                log_event (Balance_add (t_to th) (t_amount th))
                  (set_balance (t_to th) (t_tmp th + t_amount th) s))
      | Naive_unlock_to \<Rightarrow>
          Some (th\<lparr>t_pc := Naive_unlock_from\<rparr>, pthread_mutex_unlock t (t_to th) s)
      | Naive_unlock_from \<Rightarrow>
          Some (th\<lparr>t_pc := Naive_count\<rparr>, pthread_mutex_unlock t (t_from th) s)
      | Naive_count \<Rightarrow>
          Some (th\<lparr>t_i := t_i th + 1, t_pc := Loop_test\<rparr>, fetch_add Successful_transfers s)
      | Timeout_call \<Rightarrow>
          (case transfer_timeout t (t_from th) (t_to th) (t_amount th)
                  (log_event (Call 1 (t_from th) (t_to th) (t_amount th)) s) of
             (ret, s') \<Rightarrow>
               if ret \<noteq> 0 then Some (th\<lparr>t_pc := Timeout_retries\<rparr>, s')
               else Some (th\<lparr>t_i := t_i th + 1, t_pc := Loop_test\<rparr>, s'))
      | Timeout_retries \<Rightarrow>
          (let retry_count' = t_retry_count th + 1 in
           Some (th\<lparr>t_retry_count := retry_count',
                     t_pc := (if retry_count' > max_retries then Timeout_failed else Timeout_sleep)\<rparr>,
                 fetch_add Retries s))
      | Timeout_failed \<Rightarrow>
          Some (th\<lparr>t_i := t_i th + 1, t_pc := Loop_test\<rparr>, fetch_add Failed_transfers s)
      | Timeout_sleep \<Rightarrow> Some (th\<lparr>t_pc := Timeout_call\<rparr>, usleep (10 * 1000) s)
      | Ordered_call \<Rightarrow>
          Some (th\<lparr>t_i := t_i th + 1, t_pc := Loop_test\<rparr>,
                transfer_ordered t (t_from th) (t_to th) (t_amount th)
                  (log_event (Call 2 (t_from th) (t_to th) (t_amount th)) s))
      | Trylock_call \<Rightarrow>
          (case transfer_trylock t (t_from th) (t_to th) (t_amount th)
                  (log_event (Call 3 (t_from th) (t_to th) (t_amount th)) s) of
             (ret, s') \<Rightarrow>
               if ret \<noteq> 0 then Some (th\<lparr>t_pc := Trylock_retries\<rparr>, s')
               else Some (th\<lparr>t_i := t_i th + 1, t_pc := Loop_test\<rparr>, s'))
      | Trylock_retries \<Rightarrow>
          (let retry_count' = t_retry_count th + 1 in
           Some (th\<lparr>t_retry_count := retry_count',
                     t_pc := (if retry_count' > max_retries then Trylock_failed else Trylock_sleep)\<rparr>,
                 fetch_add Retries s))
      | Trylock_failed \<Rightarrow>
          Some (th\<lparr>t_i := t_i th + 1, t_pc := Loop_test\<rparr>, fetch_add Failed_transfers s)
      | Trylock_sleep \<Rightarrow> Some (th\<lparr>t_pc := Trylock_call\<rparr>, usleep (r mod 1000000) s)
      | Returned \<Rightarrow> None)"

text \<open>
  A run: the schedule names, step by step, the thread that moves and the value of
  \<^verbatim>\<open>rand()\<close> for that step.  \<open>None\<close>: the schedule asks for a step that cannot be taken.
\<close>

fun run :: "worker_args \<Rightarrow> (tid \<times> nat) list \<Rightarrow> thread list \<times> state \<Rightarrow> (thread list \<times> state) option" where
  "run args [] c = Some c"
| "run args ((t, r) # schedule) (ths, s) =
     (if t < length ths then
        (case thread_step args t r (ths ! t) s of
           None \<Rightarrow> None
         | Some (th', s') \<Rightarrow> run args schedule (ths[t := th'], s'))
      else None)"

text \<open>\<^verbatim>\<open>main\<close> has joined every thread when every thread has returned.\<close>

definition all_joined :: "thread list \<Rightarrow> bool" where
  "all_joined ths = list_all (\<lambda>th. t_pc th = Returned) ths"

subsection \<open>Notions for the statements\<close>

text \<open>The global \<^verbatim>\<open>stats = {0, 0, 0, 0}\<close> at program start.\<close>

definition stats0 :: stats_t where
  "stats0 = \<lparr>successful_transfers = 0, failed_transfers = 0, deadlock_detections = 0, retries = 0\<rparr>"

text \<open>The memory with \<open>n\<close> fresh accounts of the given balance, before any thread has run.\<close>

definition fresh_bank :: "nat \<Rightarrow> int32 \<Rightarrow> state" where
  "fresh_bank n initial_balance =
     \<lparr>accounts = init_accounts n initial_balance, stats = stats0, trace = []\<rparr>"


text \<open>The memory when \<^verbatim>\<open>main\<close> starts: no account array yet.\<close>

definition boot :: state where
  "boot = \<lparr>accounts = [], stats = stats0, trace = []\<rparr>"

text \<open>
  A call of a transfer function is well formed for \<open>n\<close> accounts: two different
  accounts of the array, and an amount from 1 to 10.
\<close>

fun call_ok :: "nat \<Rightarrow> event \<Rightarrow> bool" where
  "call_ok n (Call m f t a) = (f \<noteq> t \<and> f < n \<and> t < n \<and> 1 \<le> sint a \<and> sint a \<le> 10)"
| "call_ok n (Mutex_lock a) = True"
| "call_ok n (Mutex_unlock a) = True"
| "call_ok n (Usleep us) = True"
| "call_ok n (Balance_sub a v) = True"
| "call_ok n (Balance_add a v) = True"
| "call_ok n (Fetch_add c) = True"


text \<open>What went to the error stream.\<close>

fun on_stderr :: "stream \<times> string \<times> printf_arg list \<Rightarrow> bool" where
  "on_stderr (Stderr, fmt, as) = True"
| "on_stderr (Stdout, fmt, as) = False"

definition stderr_of :: "printed \<Rightarrow> printed" where
  "stderr_of out = filter on_stderr out"

text \<open>The sum of all balances.\<close>

definition total_balance :: "state \<Rightarrow> int32" where
  "total_balance s = sum_list (map balance (accounts s))"

subsection \<open>The invariant of interleaved runs\<close>

text \<open>
  Where in \<^verbatim>\<open>transfer_naive\<close> a thread holds the mutex of \<open>from\<close>, and where that
  of \<open>to\<close>.
\<close>

fun holds_from :: "pc \<Rightarrow> bool" where
  "holds_from Naive_usleep = True"
| "holds_from Naive_lock_to = True"
| "holds_from Naive_load_from = True"
| "holds_from Naive_store_from = True"
| "holds_from Naive_load_to = True"
| "holds_from Naive_store_to = True"
| "holds_from Naive_unlock_to = True"
| "holds_from Naive_unlock_from = True"
| "holds_from _ = False"

fun holds_to :: "pc \<Rightarrow> bool" where
  "holds_to Naive_load_from = True"
| "holds_to Naive_store_from = True"
| "holds_to Naive_load_to = True"
| "holds_to Naive_store_to = True"
| "holds_to Naive_unlock_to = True"
| "holds_to _ = False"

text \<open>
  The money a thread has taken from \<open>from\<close> and not yet put into \<open>to\<close>: between the
  two stores of \<^verbatim>\<open>transfer_naive\<close>.
\<close>

definition owes :: "thread \<Rightarrow> int32" where
  "owes th = (if t_pc th = Naive_load_to \<or> t_pc th = Naive_store_to then t_amount th else 0)"

text \<open>
  What holds of a thread at each place: it holds the mutexes of that place, the two
  accounts differ once it holds both, and the temporary of a pending store is the
  balance it was read from.
\<close>

definition thread_inv :: "tid \<Rightarrow> thread \<Rightarrow> state \<Rightarrow> bool" where
  "thread_inv t th s \<longleftrightarrow>
     (holds_from (t_pc th) \<longrightarrow>
        t_from th < length (accounts s) \<and> lock (accounts s ! t_from th) = Some t) \<and>
     (holds_to (t_pc th) \<longrightarrow>
        t_to th < length (accounts s) \<and> lock (accounts s ! t_to th) = Some t \<and>
        t_from th \<noteq> t_to th) \<and>
     (t_pc th = Naive_store_from \<longrightarrow> t_tmp th = balance (accounts s ! t_from th)) \<and>
     (t_pc th = Naive_store_to \<longrightarrow> t_tmp th = balance (accounts s ! t_to th))"

text \<open>
  The invariant of a run: every thread is as described, and the balances plus the
  money in flight add up to the given sum.
\<close>

definition bank_inv :: "int32 \<Rightarrow> thread list \<Rightarrow> state \<Rightarrow> bool" where
  "bank_inv money ths s \<longleftrightarrow>
     (\<forall>t < length ths. thread_inv t (ths ! t) s) \<and>
     total_balance s + sum_list (map owes ths) = money"

text \<open>
  What a step of thread \<open>t\<close> leaves alone: the array keeps its length, and an account
  whose mutex another thread holds is not touched.
\<close>

definition frame :: "tid \<Rightarrow> state \<Rightarrow> state \<Rightarrow> bool" where
  "frame t s s' \<longleftrightarrow>
     length (accounts s') = length (accounts s) \<and>
     (\<forall>x < length (accounts s).
        lock (accounts s ! x) \<noteq> None \<and> lock (accounts s ! x) \<noteq> Some t \<longrightarrow>
        accounts s' ! x = accounts s ! x)"

section \<open>Facts about the sequential functions\<close>

lemma transfer_timeout_fails: "transfer_timeout t from to amount s = (- 1, s)"
  by (simp add: transfer_timeout_def mutex_trylock_timed_def)

lemma transfer_trylock_fails: "transfer_trylock t from to amount s = (- 1, s)"
  by (simp add: transfer_trylock_def)

lemma pthread_mutex_lock_Some:
  "pthread_mutex_lock t a s = Some s' \<longleftrightarrow>
     a < length (accounts s) \<and> lock (accounts s ! a) = None \<and>
     s' = log_event (Mutex_lock a) (s\<lparr>accounts := (accounts s)[a := (accounts s ! a)\<lparr>lock := Some t\<rparr>]\<rparr>)"
  by (auto simp: pthread_mutex_lock_def)

lemma naive_effects:
  assumes "transfer_naive t from to amount s = Some s'"
  shows "trace s' = trace s @
           [Mutex_lock from, Usleep 1, Mutex_lock to, Balance_sub from amount,
            Balance_add to amount, Mutex_unlock to, Mutex_unlock from,
            Fetch_add Successful_transfers]
         \<and> balance (accounts s' ! from) = balance (accounts s ! from) - amount
         \<and> balance (accounts s' ! to) = balance (accounts s ! to) + amount
         \<and> lock (accounts s' ! from) = None \<and> lock (accounts s' ! to) = None
         \<and> stats s' = (stats s)\<lparr>successful_transfers := successful_transfers (stats s) + 1\<rparr>"
proof -
  from assms obtain s1 s2 where
    l1: "pthread_mutex_lock t from s = Some s1" and
    l2: "pthread_mutex_lock t to (usleep 1 s1) = Some s2" and
    s': "s' = fetch_add Successful_transfers
               (pthread_mutex_unlock t from
                 (pthread_mutex_unlock t to
                   (balance_add to amount (balance_sub from amount s2))))"
    by (auto simp: transfer_naive_def split: option.splits)
  from l1 have f: "from < length (accounts s)" "lock (accounts s ! from) = None"
    and s1: "s1 = log_event (Mutex_lock from)
                   (s\<lparr>accounts := (accounts s)[from := (accounts s ! from)\<lparr>lock := Some t\<rparr>]\<rparr>)"
    by (simp_all add: pthread_mutex_lock_Some)
  from l2 have g: "to < length (accounts s1)" "lock (accounts s1 ! to) = None"
    and s2: "s2 = log_event (Mutex_lock to)
                   ((usleep 1 s1)\<lparr>accounts := (accounts s1)[to := (accounts s1 ! to)\<lparr>lock := Some t\<rparr>]\<rparr>)"
    by (simp_all add: pthread_mutex_lock_Some usleep_def log_event_def)
  from f g s1 have ne: "from \<noteq> to"
    by (auto simp: log_event_def)
  from f g s1 have len: "to < length (accounts s)"
    by (simp add: log_event_def)
  from ne f len show ?thesis
    unfolding s' s2 s1
    by (simp add: pthread_mutex_unlock_def usleep_def balance_sub_def balance_add_def
        set_balance_def fetch_add_def log_event_def)
qed

lemma transfer_naive_completes:
  assumes "from < length (accounts s)" and "to < length (accounts s)" and "from \<noteq> to"
    and "lock (accounts s ! from) = None" and "lock (accounts s ! to) = None"
  shows "transfer_naive t from to amount s \<noteq> None"
  using assms
  by (simp add: transfer_naive_def pthread_mutex_lock_def usleep_def log_event_def)

lemma timeout_loop_result:
  "accounts (timeout_loop t f to a (max_retries - int k) s) = accounts s \<and>
   trace (timeout_loop t f to a (max_retries - int k) s) =
     trace s @ concat (replicate k [Call 1 f to a, Fetch_add Retries, Usleep 10000]) @
       [Call 1 f to a, Fetch_add Retries, Fetch_add Failed_transfers] \<and>
   stats (timeout_loop t f to a (max_retries - int k) s) =
     (stats s)\<lparr>failed_transfers := failed_transfers (stats s) + 1,
               retries := retries (stats s) + word_of_nat (Suc k)\<rparr>"
proof (induction k arbitrary: s)
  case 0
  show ?case
    by (subst (1 2 3) timeout_loop.simps)
      (simp add: transfer_timeout_fails fetch_add_def log_event_def)
next
  case (Suc k)
  have rc: "max_retries - int (Suc k) + 1 = max_retries - int k"
    by simp
  show ?case
    by (subst (1 2 3) timeout_loop.simps)
      (simp add: transfer_timeout_fails Let_def rc Suc.IH usleep_def fetch_add_def log_event_def
        del: of_nat_Suc, simp)
qed

lemma trylock_loop_result:
  "k \<le> length rs \<Longrightarrow>
   \<exists>s'. trylock_loop t f to a (max_retries - int k) rs s = Some (drop k rs, s') \<and>
     accounts s' = accounts s \<and>
     trace s' =
       trace s @ concat (map (\<lambda>r. [Call 3 f to a, Fetch_add Retries, Usleep (r mod 1000000)]) (take k rs)) @
         [Call 3 f to a, Fetch_add Retries, Fetch_add Failed_transfers] \<and>
     stats s' =
       (stats s)\<lparr>failed_transfers := failed_transfers (stats s) + 1,
                 retries := retries (stats s) + word_of_nat (Suc k)\<rparr>"
proof (induction k arbitrary: s rs)
  case 0
  show ?case
    by (subst trylock_loop.simps)
      (simp add: transfer_trylock_fails fetch_add_def log_event_def)
next
  case (Suc k)
  then obtain r rs' where rs: "rs = r # rs'" and len: "k \<le> length rs'"
    by (cases rs) auto
  have rc: "max_retries - int (Suc k) + 1 = max_retries - int k"
    by simp
  from Suc.IH [OF len, of "usleep (r mod 1000000) (fetch_add Retries (log_event (Call 3 f to a) s))"]
  show ?case
    by (subst trylock_loop.simps)
      (auto simp add: transfer_trylock_fails Let_def rc rs usleep_def fetch_add_def log_event_def
        add.assoc)
qed

lemma not_call_ok: "\<forall>m x y z. e \<noteq> Call m x y z \<Longrightarrow> call_ok n e"
  by (cases e) simp_all

lemma trylock_loop_Some:
  assumes "trylock_loop t f to a rc rs s = Some (rs', s')"
  shows "length rs' \<le> length rs \<and> accounts s' = accounts s \<and>
         (\<exists>evs. trace s' = trace s @ evs \<and>
            (\<forall>e\<in>set evs. e = Call 3 f to a \<or> (\<forall>m x y z. e \<noteq> Call m x y z)))"
  using assms
proof (induction t f to a rc rs s rule: trylock_loop.induct)
  case (1 t f to a rc rs s)
  note unf = "1.prems"(1) [unfolded trylock_loop.simps [of t f to a rc rs s]]
  show ?case
  proof (cases "rc + 1 > max_retries")
    case True
    with unf show ?thesis
      by (auto simp: transfer_trylock_fails fetch_add_def log_event_def)
  next
    case False
    show ?thesis
    proof (cases rs)
      case Nil
      with False unf show ?thesis
        by (simp add: transfer_trylock_fails)
    next
      case (Cons r rs1)
      let ?s1 = "usleep (r mod 1000000) (fetch_add Retries (log_event (Call 3 f to a) s))"
      from Cons False unf have step:
        "trylock_loop t f to a (rc + 1) rs1 ?s1 = Some (rs', s')"
        by (simp add: transfer_trylock_fails)
      have "length rs' \<le> length rs1 \<and> accounts s' = accounts ?s1 \<and>
            (\<exists>evs. trace s' = trace ?s1 @ evs \<and>
               (\<forall>e\<in>set evs. e = Call 3 f to a \<or> (\<forall>m x y z. e \<noteq> Call m x y z)))"
        by (rule "1.IH" [of "- 1" "log_event (Call 3 f to a) s", OF _ _ refl refl False Cons step])
          (simp_all add: transfer_trylock_fails)
      then obtain evs where
        "length rs' \<le> length rs1" "accounts s' = accounts ?s1" "trace s' = trace ?s1 @ evs"
        "\<forall>e\<in>set evs. e = Call 3 f to a \<or> (\<forall>m x y z. e \<noteq> Call m x y z)"
        by blast
      then have "length rs' \<le> length rs" "accounts s' = accounts s"
        "trace s' = trace s @ ([Call 3 f to a, Fetch_add Retries, Usleep (r mod 1000000)] @ evs)"
        "\<forall>e\<in>set ([Call 3 f to a, Fetch_add Retries, Usleep (r mod 1000000)] @ evs).
           e = Call 3 f to a \<or> (\<forall>m x y z. e \<noteq> Call m x y z)"
        using Cons by (simp_all add: usleep_def fetch_add_def log_event_def)
      then show ?thesis
        by blast
    qed
  qed
qed

lemma timeout_loop_0:
  "accounts (timeout_loop t f to a 0 s) = accounts s"
  "trace (timeout_loop t f to a 0 s) =
     trace s @ concat (replicate 1000 [Call 1 f to a, Fetch_add Retries, Usleep 10000]) @
       [Call 1 f to a, Fetch_add Retries, Fetch_add Failed_transfers]"
  "stats (timeout_loop t f to a 0 s) =
     (stats s)\<lparr>failed_transfers := failed_transfers (stats s) + 1,
               retries := retries (stats s) + 1001\<rparr>"
  using timeout_loop_result [of t f to a 1000 s]
  by (simp_all add: max_retries_def)

lemma list_all_concat_replicate: "list_all P xs \<Longrightarrow> list_all P (concat (replicate k xs))"
  by (induction k) simp_all

lemma amount_range: "1 \<le> sint (1 + word_of_nat (r mod 10) :: int32) \<and> sint (1 + word_of_nat (r mod 10) :: int32) \<le> 10"
proof -
  have "r mod 10 < 10" by simp
  then have "r mod 10 = 0 \<or> r mod 10 = 1 \<or> r mod 10 = 2 \<or> r mod 10 = 3 \<or> r mod 10 = 4 \<or>
             r mod 10 = 5 \<or> r mod 10 = 6 \<or> r mod 10 = 7 \<or> r mod 10 = 8 \<or> r mod 10 = 9"
    by arith
  then show ?thesis
    by (elim disjE) simp_all
qed

lemma worker_loop_done: "\<not> i < transfers args \<Longrightarrow> worker_loop t args i rs s = Some s"
  by (simp add: worker_loop.simps)

lemma worker_loop_redraw:
  "i < transfers args \<Longrightarrow> num_accounts args \<noteq> 0 \<Longrightarrow>
   r1 mod num_accounts args = r2 mod num_accounts args \<Longrightarrow>
   worker_loop t args i (r1 # r2 # rs) s = worker_loop t args i rs s"
  by (simp add: worker_loop.simps [of t args i "r1 # r2 # rs" s])

lemma worker_loop_transfer:
  "i < transfers args \<Longrightarrow> num_accounts args \<noteq> 0 \<Longrightarrow>
   r1 mod num_accounts args \<noteq> r2 mod num_accounts args \<Longrightarrow>
   worker_loop t args i (r1 # r2 # r3 # rs) s =
     (let from_id = r1 mod num_accounts args; to_id = r2 mod num_accounts args;
          amount = 1 + word_of_nat (r3 mod 10) in
      if mode args = 0 then
        (case transfer_naive t from_id to_id amount (log_event (Call 0 from_id to_id amount) s) of
           None \<Rightarrow> None
         | Some s1 \<Rightarrow> worker_loop t args (i + 1) rs s1)
      else if mode args = 1 then
        worker_loop t args (i + 1) rs (timeout_loop t from_id to_id amount 0 s)
      else if mode args = 2 then
        worker_loop t args (i + 1) rs
          (transfer_ordered t from_id to_id amount (log_event (Call 2 from_id to_id amount) s))
      else if mode args = 3 then
        (case trylock_loop t from_id to_id amount 0 rs s of
           None \<Rightarrow> None
         | Some (rs3, s1) \<Rightarrow> worker_loop t args (i + 1) rs3 s1)
      else worker_loop t args (i + 1) rs s)"
  by (simp add: worker_loop.simps [of t args i "r1 # r2 # r3 # rs" s] Let_def)

lemma worker_loop_Some_cases:
  assumes "worker_loop t args i rs s = Some s'" and "i < transfers args"
  obtains r1 r2 rs1 where "rs = r1 # r2 # rs1" "num_accounts args \<noteq> 0"
    "r1 mod num_accounts args = r2 mod num_accounts args"
  | r1 r2 r3 rs2 where "rs = r1 # r2 # r3 # rs2" "num_accounts args \<noteq> 0"
    "r1 mod num_accounts args \<noteq> r2 mod num_accounts args"
  using assms
  by (subst (asm) worker_loop.simps) (auto simp: Let_def split: list.splits if_splits)

lemma worker_loop_calls_ok:
  "worker_loop t args i rs s = Some s' \<Longrightarrow>
     \<exists>evs. trace s' = trace s @ evs \<and> list_all (call_ok (num_accounts args)) evs"
proof (induction "length rs" arbitrary: rs i s rule: less_induct)
  case less
  show ?case
  proof (cases "i < transfers args")
    case False
    with less.prems show ?thesis by (simp add: worker_loop_done)
  next
    case True
    let ?n = "num_accounts args"
    from less.prems True show ?thesis
    proof (cases rule: worker_loop_Some_cases)
      case (1 r1 r2 rs1)
      with less.prems True have "worker_loop t args i rs1 s = Some s'"
        by (simp add: worker_loop_redraw)
      with less.hyps [of rs1 i s] 1 show ?thesis by simp
    next
      case (2 r1 r2 r3 rs2)
      let ?f = "r1 mod ?n" and ?t = "r2 mod ?n"
      let ?a = "1 + word_of_nat (r3 mod 10) :: int32"
      have ok: "call_ok ?n (Call m ?f ?t ?a)" for m
        using 2 amount_range [of r3] by simp
      note unf = less.prems [unfolded 2(1) worker_loop_transfer [OF True 2(2,3)] Let_def]
      consider (naive) "mode args = 0" | (timeout) "mode args = 1" | (ordered) "mode args = 2"
        | (trylock) "mode args = 3" | (other) "mode args \<notin> {0, 1, 2, 3}"
        by auto
      then show ?thesis
      proof cases
        case naive
        with unf obtain s1 where
          s1: "transfer_naive t ?f ?t ?a (log_event (Call 0 ?f ?t ?a) s) = Some s1" and
          rest: "worker_loop t args (i + 1) rs2 s1 = Some s'"
          by (auto split: option.splits)
        from less.hyps [of rs2 "i + 1" s1] rest 2(1) obtain evs where
          "trace s' = trace s1 @ evs" "list_all (call_ok ?n) evs"
          by auto
        with naive_effects [OF s1] ok [of 0] show ?thesis
          by (simp add: log_event_def)
      next
        case timeout
        with unf have rest: "worker_loop t args (i + 1) rs2 (timeout_loop t ?f ?t ?a 0 s) = Some s'"
          by simp
        from less.hyps [of rs2 "i + 1" "timeout_loop t ?f ?t ?a 0 s"] rest 2(1) obtain evs where
          "trace s' = trace (timeout_loop t ?f ?t ?a 0 s) @ evs" "list_all (call_ok ?n) evs"
          by auto
        with ok [of 1] show ?thesis
          by (simp add: timeout_loop_0 list_all_concat_replicate)
      next
        case ordered
        with unf have rest: "worker_loop t args (i + 1) rs2
            (transfer_ordered t ?f ?t ?a (log_event (Call 2 ?f ?t ?a) s)) = Some s'"
          by simp
        from less.hyps [of rs2 "i + 1" "transfer_ordered t ?f ?t ?a (log_event (Call 2 ?f ?t ?a) s)"]
          rest 2(1) obtain evs where
          "trace s' = trace (transfer_ordered t ?f ?t ?a (log_event (Call 2 ?f ?t ?a) s)) @ evs"
          "list_all (call_ok ?n) evs"
          by auto
        with ok [of 2] show ?thesis
          by (simp add: transfer_ordered_def fetch_add_def log_event_def)
      next
        case trylock
        with unf obtain rs3 s1 where
          s1: "trylock_loop t ?f ?t ?a 0 rs2 s = Some (rs3, s1)" and
          rest: "worker_loop t args (i + 1) rs3 s1 = Some s'"
          by (auto split: option.splits)
        from trylock_loop_Some [OF s1] obtain evs1 where
          len: "length rs3 \<le> length rs2" and tr: "trace s1 = trace s @ evs1" and
          all: "\<forall>e\<in>set evs1. e = Call 3 ?f ?t ?a \<or> (\<forall>m x y z. e \<noteq> Call m x y z)"
          by blast
        have "call_ok ?n e" if "e \<in> set evs1" for e
        proof (cases "e = Call 3 ?f ?t ?a")
          case True
          with ok [of 3] show ?thesis by simp
        next
          case False
          with all that have "\<forall>m x y z. e \<noteq> Call m x y z" by blast
          then show ?thesis by (rule not_call_ok)
        qed
        then have "list_all (call_ok ?n) evs1"
          by (simp add: list_all_iff)
        note evs1 = tr this
        from less.hyps [of rs3 "i + 1" s1] rest 2(1) len obtain evs where
          "trace s' = trace s1 @ evs" "list_all (call_ok ?n) evs"
          by auto
        with evs1 show ?thesis
          by simp
      next
        case other
        with unf have rest: "worker_loop t args (i + 1) rs2 s = Some s'"
          by simp
        from less.hyps [of rs2 "i + 1" s] rest 2(1) show ?thesis
          by simp
      qed
    qed
  qed
qed

lemma count_list_concat_replicate:
  "count_list (concat (replicate k xs)) x = k * count_list xs x"
  by (induction k) simp_all

lemma count_list_concat_map_call:
  "count_list (concat (map (\<lambda>r. [Call m f to a, Fetch_add c, Usleep (g r)]) rs)) (Call m f to a)
     = length rs"
  by (induction rs) simp_all

lemma length_init_accounts: "length (init_accounts n b) = n"
  by (simp add: init_accounts_def)

lemma nth_init_accounts:
  "i < n \<Longrightarrow> init_accounts n b ! i = \<lparr>acc_id = word_of_nat i, balance = b, lock = None\<rparr>"
  by (simp add: init_accounts_def)

lemma init_accounts_2:
  "init_accounts 2 b = [\<lparr>acc_id = 0, balance = b, lock = None\<rparr>, \<lparr>acc_id = 1, balance = b, lock = None\<rparr>]"
  by (simp add: init_accounts_def numeral_2_eq_2)

lemma trylock_loop_0:
  "1000 \<le> length rs \<Longrightarrow>
   \<exists>s'. trylock_loop t f to a 0 rs s = Some (drop 1000 rs, s') \<and>
     accounts s' = accounts s \<and>
     trace s' =
       trace s @ concat (map (\<lambda>r. [Call 3 f to a, Fetch_add Retries, Usleep (r mod 1000000)]) (take 1000 rs)) @
         [Call 3 f to a, Fetch_add Retries, Fetch_add Failed_transfers] \<and>
     stats s' =
       (stats s)\<lparr>failed_transfers := failed_transfers (stats s) + 1,
                 retries := retries (stats s) + 1001\<rparr>"
  using trylock_loop_result [of 1000 rs t f to a s]
  by (simp add: max_retries_def)

lemma foldl_balances:
  "n \<le> length accs \<Longrightarrow>
   foldl (\<lambda>total i. total + balance (accs ! i)) z [0..<n] = z + sum_list (map balance (take n accs))"
  by (induction n) (simp_all add: take_Suc_conv_app_nth add.assoc)

lemma verify_total_iff:
  "snd (verify_total accs (length accs) expected_total) = 1 \<longleftrightarrow>
     sum_list (map balance accs) = expected_total"
  "snd (verify_total accs (length accs) expected_total) = 0 \<longleftrightarrow>
     sum_list (map balance accs) \<noteq> expected_total"
  by (simp_all add: verify_total_def foldl_balances Let_def)

lemma sum_init_accounts: "sum_list (map balance (init_accounts n b)) = word_of_nat n * b"
  by (simp add: init_accounts_def comp_def sum_list_triv)

lemma count_calls_timeout_loop:
  "count_list (trace (timeout_loop t f to a 0 s)) (Call 1 f to a) =
     count_list (trace s) (Call 1 f to a) + 1001"
  by (simp add: timeout_loop_0(2) count_list_concat_replicate)

lemma fresh_bank_fields:
  "accounts (fresh_bank n b) = init_accounts n b"
  "stats (fresh_bank n b) = stats0"
  "trace (fresh_bank n b) = []"
  by (simp_all add: fresh_bank_def)

lemma getopt_loop_unrecognized:
  "(c, a) \<in> set getopts \<Longrightarrow> c \<noteq> CHR ''t'' \<Longrightarrow> c \<noteq> CHR ''n'' \<Longrightarrow> c \<noteq> CHR ''m'' \<Longrightarrow>
   getopt_loop opts getopts = None"
  by (induction opts getopts rule: getopt_loop.induct) auto

text \<open>
  \<^verbatim>\<open>transfer_timeout\<close> is its body with the helper of the file; and for any helper,
  when the first lock is taken and the second times out, the call ends in the state
  the helper left: nothing is unlocked.
\<close>

lemma transfer_timeout_body:
  "transfer_timeout t from to amount s =
     transfer_timeout_with mutex_trylock_timed t from to amount s"
  by (simp add: transfer_timeout_def transfer_timeout_with_def)

lemma second_timeout_no_unlock:
  assumes "helper t from 100 s = (0, s1)" and "helper t to 100 (usleep 1 s1) = (ETIMEDOUT, s2)"
  shows "transfer_timeout_with helper t from to amount s = (- 1, s2)"
  using assms by (simp add: transfer_timeout_with_def ETIMEDOUT_def)

text \<open>\<^verbatim>\<open>atoi\<close> gives values of a C \<^verbatim>\<open>int\<close>, and so the options hold such values.\<close>

lemma atoi_examples:
  "atoi ''7'' = 7" "atoi '' -17x'' = - 17" "atoi ''abc'' = 0"
  "atoi ''4294967298'' = 2" "atoi ''4294967297'' = 1" "atoi ''2147483648'' = - 2147483648"
  "atoi ''99999999999999999999'' = - 1"
  by (simp_all add: atoi_def strtol_def is_space_def is_digit_def LONG_MAX_def LONG_MIN_def)

lemma atoi_range: "- 2147483648 \<le> atoi str \<and> atoi str \<le> 2147483647"
  using sint_ge [of "word_of_int (strtol str) :: int32"]
    sint_lt [of "word_of_int (strtol str) :: int32"]
  by (simp add: atoi_def)

lemma getopt_loop_range:
  assumes "getopt_loop opts getopts = Some opts'"
    and "- 2147483648 \<le> num_threads opts \<and> num_threads opts \<le> 2147483647"
    and "- 2147483648 \<le> transfers_per_thread opts \<and> transfers_per_thread opts \<le> 2147483647"
    and "- 2147483648 \<le> main_mode opts \<and> main_mode opts \<le> 2147483647"
  shows "(- 2147483648 \<le> num_threads opts' \<and> num_threads opts' \<le> 2147483647) \<and>
         (- 2147483648 \<le> transfers_per_thread opts' \<and> transfers_per_thread opts' \<le> 2147483647) \<and>
         (- 2147483648 \<le> main_mode opts' \<and> main_mode opts' \<le> 2147483647)"
  using assms
proof (induction opts getopts rule: getopt_loop.induct)
  case (1 opts)
  then show ?case by simp
next
  case (2 opts opt optarg rest)
  from "2.prems"(1) consider (t) "opt = CHR ''t''" | (n) "opt = CHR ''n''" | (m) "opt = CHR ''m''"
    by (auto split: if_splits)
  then show ?case
  proof cases
    case t
    with "2.prems" "2.IH"(1) atoi_range [of optarg] show ?thesis by simp
  next
    case n
    with "2.prems" "2.IH"(2) atoi_range [of optarg] show ?thesis by simp
  next
    case m
    with "2.prems" "2.IH"(3) atoi_range [of optarg] show ?thesis by simp
  qed
qed

lemma options_are_c_ints:
  assumes "getopt_loop default_options getopts = Some opts"
  shows "(- 2147483648 \<le> num_threads opts \<and> num_threads opts \<le> 2147483647) \<and>
         (- 2147483648 \<le> transfers_per_thread opts \<and> transfers_per_thread opts \<le> 2147483647) \<and>
         (- 2147483648 \<le> main_mode opts \<and> main_mode opts \<le> 2147483647)"
  by (rule getopt_loop_range [OF assms])
    (simp_all add: default_options_def NUM_THREADS_def TRANSFERS_PER_THREAD_def)

lemma wrapped_mode_runs:
  "fst (main_start ''bank'' [(CHR ''m'', ''4294967298'')] boot) =
     Spawn \<lparr>num_threads = 8, transfers_per_thread = 1000, main_mode = 2\<rparr>"
  by (simp add: main_start_def default_options_def atoi_examples NUM_THREADS_def
      TRANSFERS_PER_THREAD_def)

section \<open>The claims about single functions\<close>

text \<open>
  Claim C2 says that \<^verbatim>\<open>mutex_trylock_timed\<close> with a budget of 100 ms succeeds when the
  mutex is free, and reports a timeout only after polling every 10 ms for 100 ms.  The
  function as written does neither: with account 0 of a fresh bank unlocked, the call
  returns \<^verbatim>\<open>ETIMEDOUT\<close> at once, and the state is the one before the call: the mutex
  is not taken, no attempt was made and no time was slept (the trace has not grown).
\<close>

theorem mutex_trylock_timed_free_lock:
  "lock (accounts (fresh_bank 2 1000) ! 0) = None \<and>
   mutex_trylock_timed 0 0 100 (fresh_bank 2 1000) = (ETIMEDOUT, fresh_bank 2 1000)"
  by (simp add: mutex_trylock_timed_def fresh_bank_def init_accounts_2)


text \<open>
  Claim C4: a call of \<^verbatim>\<open>transfer_timeout\<close> or \<^verbatim>\<open>transfer_trylock\<close> that returns
  failure leaves the account array, and so both balances, as it was; and so does the
  whole retry loop of the worker for a transfer that is given up after the retry cap.
\<close>

theorem failure_leaves_balances:
  "(fst (transfer_timeout t from to amount s) \<noteq> 0 \<longrightarrow>
      accounts (snd (transfer_timeout t from to amount s)) = accounts s) \<and>
   (fst (transfer_trylock t from to amount s) \<noteq> 0 \<longrightarrow>
      accounts (snd (transfer_trylock t from to amount s)) = accounts s) \<and>
   accounts (timeout_loop t from to amount 0 s) = accounts s \<and>
   (trylock_loop t from to amount 0 rs s = Some (rs', s') \<longrightarrow> accounts s' = accounts s)"
proof -
  have "accounts s' = accounts s" if "trylock_loop t from to amount 0 rs s = Some (rs', s')"
    using trylock_loop_Some [OF that] by simp
  then show ?thesis
    by (simp add: transfer_timeout_fails transfer_trylock_fails timeout_loop_0(1))
qed

theorem failure_leaves_balances_witness:
  "fst (transfer_timeout 0 0 1 50 (fresh_bank 2 1000)) \<noteq> 0 \<and>
   accounts (snd (transfer_timeout 0 0 1 50 (fresh_bank 2 1000))) = accounts (fresh_bank 2 1000) \<and>
   fst (transfer_trylock 0 0 1 50 (fresh_bank 2 1000)) \<noteq> 0 \<and>
   accounts (snd (transfer_trylock 0 0 1 50 (fresh_bank 2 1000))) = accounts (fresh_bank 2 1000) \<and>
   (\<exists>rs' s'. trylock_loop 0 0 1 50 0 (replicate 1000 7) (fresh_bank 2 1000) = Some (rs', s') \<and>
      accounts s' = accounts (fresh_bank 2 1000))"
proof -
  have "fst (transfer_timeout 0 0 1 50 (fresh_bank 2 1000)) \<noteq> 0"
    "fst (transfer_trylock 0 0 1 50 (fresh_bank 2 1000)) \<noteq> 0"
    by (simp_all add: transfer_timeout_def mutex_trylock_timed_def transfer_trylock_def)
  moreover define rs :: "nat list" where "rs = replicate 1000 7"
  moreover have "1000 \<le> length rs"
    by (simp add: rs_def)
  then obtain s' where "trylock_loop 0 0 1 50 0 rs (fresh_bank 2 1000) = Some (drop 1000 rs, s')"
    using trylock_loop_0 [of rs 0 0 1 50 "fresh_bank 2 1000"] by blast
  moreover from this have "accounts s' = accounts (fresh_bank 2 1000)"
    using failure_leaves_balances [of 0 0 1 50 "fresh_bank 2 1000" rs "drop 1000 rs" s']
    by simp
  ultimately show ?thesis
    using failure_leaves_balances [of 0 0 1 50 "fresh_bank 2 1000" rs "drop 1000 rs" s']
    by blast
qed

text \<open>
  Claim C5 says that \<^verbatim>\<open>transfer_ordered\<close> debits \<open>from\<close> and credits \<open>to\<close>: with two
  accounts at 1000, a transfer of 50 from account 0 to account 1 gives 950 and 1050.
  The function as written only counts a success: after the call both balances are
  still 1000, \<^verbatim>\<open>successful_transfers\<close> is 1, and the only event is the increment (no
  lock was taken).
\<close>

theorem transfer_ordered_moves_nothing:
  "map balance (accounts (transfer_ordered 0 0 1 50 (fresh_bank 2 1000))) = [1000, 1000] \<and>
   successful_transfers (stats (transfer_ordered 0 0 1 50 (fresh_bank 2 1000))) = 1 \<and>
   trace (transfer_ordered 0 0 1 50 (fresh_bank 2 1000)) = [Fetch_add Successful_transfers]"
  by (simp add: transfer_ordered_def fetch_add_def log_event_def fresh_bank_def init_accounts_2
      stats0_def)

text \<open>
  Claim C6 says that the worker makes up to 1000 attempts in total for one transfer.
  In mode 1, for the transfer of 5 from account 0 to account 1 on a fresh bank, the
  worker calls \<^verbatim>\<open>transfer_timeout\<close> 1001 times.
\<close>

theorem timeout_loop_calls_1001:
  "count_list (trace (timeout_loop 0 0 1 5 0 (fresh_bank 2 1000))) (Call 1 0 1 5) = 1001"
  using count_calls_timeout_loop [of 0 0 1 5 "fresh_bank 2 1000"]
  by (simp add: fresh_bank_def)

text \<open>
  Claim C6 as amended: in modes 1 and 3 the worker calls the transfer function up to
  1001 times for one transfer, the first attempt and 1000 retries.  As every call
  fails, it makes exactly 1001 calls, then increments \<^verbatim>\<open>failed_transfers\<close> once, and
  goes on with the next iteration of its loop (\<open>i + 1\<close>).  In mode 3 each of the 1000
  waits takes one value of \<^verbatim>\<open>rand()\<close>.
\<close>

theorem retry_cap:
  "count_list (trace (timeout_loop t from to amount 0 s)) (Call 1 from to amount) =
     count_list (trace s) (Call 1 from to amount) + 1001 \<and>
   failed_transfers (stats (timeout_loop t from to amount 0 s)) = failed_transfers (stats s) + 1 \<and>
   (1000 \<le> length rs \<longrightarrow>
      (\<exists>s'. trylock_loop t from to amount 0 rs s = Some (drop 1000 rs, s') \<and>
         count_list (trace s') (Call 3 from to amount) =
           count_list (trace s) (Call 3 from to amount) + 1001 \<and>
         failed_transfers (stats s') = failed_transfers (stats s) + 1)) \<and>
   (i < transfers args \<and> num_accounts args \<noteq> 0 \<and>
    r1 mod num_accounts args \<noteq> r2 mod num_accounts args \<and> mode args = 1 \<longrightarrow>
      worker_loop t args i (r1 # r2 # r3 # rs) s =
        worker_loop t args (i + 1) rs
          (timeout_loop t (r1 mod num_accounts args) (r2 mod num_accounts args)
             (1 + word_of_nat (r3 mod 10)) 0 s)) \<and>
   (i < transfers args \<and> num_accounts args \<noteq> 0 \<and>
    r1 mod num_accounts args \<noteq> r2 mod num_accounts args \<and> mode args = 3 \<and>
    1000 \<le> length rs \<longrightarrow>
      (\<exists>s'. trylock_loop t (r1 mod num_accounts args) (r2 mod num_accounts args)
               (1 + word_of_nat (r3 mod 10)) 0 rs s = Some (drop 1000 rs, s') \<and>
            worker_loop t args i (r1 # r2 # r3 # rs) s =
              worker_loop t args (i + 1) (drop 1000 rs) s'))"
proof -
  have tloop: "\<exists>s'. trylock_loop t f g a 0 rs s = Some (drop 1000 rs, s') \<and>
         count_list (trace s') (Call 3 f g a) = count_list (trace s) (Call 3 f g a) + 1001 \<and>
         failed_transfers (stats s') = failed_transfers (stats s) + 1"
    if "1000 \<le> length rs" for f g a
  proof -
    from trylock_loop_0 [OF that, of t f g a s] obtain s' where
      s': "trylock_loop t f g a 0 rs s = Some (drop 1000 rs, s')"
      "trace s' = trace s @
         concat (map (\<lambda>r. [Call 3 f g a, Fetch_add Retries, Usleep (r mod 1000000)]) (take 1000 rs)) @
         [Call 3 f g a, Fetch_add Retries, Fetch_add Failed_transfers]"
      "stats s' = (stats s)\<lparr>failed_transfers := failed_transfers (stats s) + 1,
                 retries := retries (stats s) + 1001\<rparr>"
      by blast
    from that have "length (take 1000 rs) = 1000"
      by simp
    with s' show ?thesis
      by (simp add: count_list_concat_map_call del: length_take)
  qed
  have "worker_loop t args i (r1 # r2 # r3 # rs) s =
        worker_loop t args (i + 1) rs
          (timeout_loop t (r1 mod num_accounts args) (r2 mod num_accounts args)
             (1 + word_of_nat (r3 mod 10)) 0 s)"
    if "i < transfers args" "num_accounts args \<noteq> 0"
      "r1 mod num_accounts args \<noteq> r2 mod num_accounts args" "mode args = 1"
    using that by (simp add: worker_loop_transfer Let_def)
  moreover have "\<exists>s'. trylock_loop t (r1 mod num_accounts args) (r2 mod num_accounts args)
               (1 + word_of_nat (r3 mod 10)) 0 rs s = Some (drop 1000 rs, s') \<and>
            worker_loop t args i (r1 # r2 # r3 # rs) s =
              worker_loop t args (i + 1) (drop 1000 rs) s'"
    if "i < transfers args" "num_accounts args \<noteq> 0"
      "r1 mod num_accounts args \<noteq> r2 mod num_accounts args" "mode args = 3" "1000 \<le> length rs"
  proof -
    from tloop [OF that(5)] obtain s' where
      "trylock_loop t (r1 mod num_accounts args) (r2 mod num_accounts args)
               (1 + word_of_nat (r3 mod 10)) 0 rs s = Some (drop 1000 rs, s')"
      by blast
    with that show ?thesis
      by (simp add: worker_loop_transfer Let_def)
  qed
  ultimately show ?thesis
    using tloop [of "from" to amount]
    by (simp add: count_calls_timeout_loop timeout_loop_0(3))
qed

theorem retry_cap_witness:
  "worker_loop 0 \<lparr>num_accounts = 10, mode = 1, transfers = 1\<rparr> 0 [0, 1, 49]
      (fresh_bank 10 1000) = Some (timeout_loop 0 0 1 10 0 (fresh_bank 10 1000)) \<and>
   count_list (trace (timeout_loop 0 0 1 10 0 (fresh_bank 10 1000))) (Call 1 0 1 10) = 1001 \<and>
   failed_transfers (stats (timeout_loop 0 0 1 10 0 (fresh_bank 10 1000))) = 1 \<and>
   (\<exists>s'. trylock_loop 0 0 1 10 0 (replicate 1000 7) (fresh_bank 10 1000) = Some ([], s') \<and>
      worker_loop 0 \<lparr>num_accounts = 10, mode = 3, transfers = 1\<rparr> 0
        (0 # 1 # 49 # replicate 1000 7) (fresh_bank 10 1000) = Some s' \<and>
      count_list (trace s') (Call 3 0 1 10) = 1001 \<and>
      failed_transfers (stats s') = 1)"
proof -
  define rs :: "nat list" where "rs = replicate 1000 7"
  have len: "1000 \<le> length rs" and dr: "drop 1000 rs = []"
    by (simp_all add: rs_def)
  let ?a1 = "\<lparr>num_accounts = 10, mode = 1, transfers = 1\<rparr>"
  let ?a3 = "\<lparr>num_accounts = 10, mode = 3, transfers = 1\<rparr>"
  let ?s = "fresh_bank 10 1000"
  note c1 = retry_cap [of 0 0 1 10 ?s "[]" 0 ?a1 0 1 49]
  note c3 = retry_cap [of 0 0 1 10 ?s rs 0 ?a3 0 1 49]
  from c1 have
    "worker_loop 0 ?a1 0 [0, 1, 49] ?s = Some (timeout_loop 0 0 1 10 0 ?s)"
    "count_list (trace (timeout_loop 0 0 1 10 0 ?s)) (Call 1 0 1 10) = 1001"
    "failed_transfers (stats (timeout_loop 0 0 1 10 0 ?s)) = 1"
    by (simp_all add: worker_loop_done fresh_bank_fields stats0_def)
  moreover from c3 len obtain s' where
    "trylock_loop 0 0 1 10 0 rs ?s = Some (drop 1000 rs, s')"
    "worker_loop 0 ?a3 0 (0 # 1 # 49 # rs) ?s = worker_loop 0 ?a3 1 (drop 1000 rs) s'"
    by auto
  moreover from c3 len this(1) have
    "count_list (trace s') (Call 3 0 1 10) = 1001" "failed_transfers (stats s') = 1"
    by (auto simp: fresh_bank_fields stats0_def)
  ultimately show ?thesis
    unfolding rs_def [symmetric] dr by (simp add: worker_loop_done)
qed

text \<open>
  Claim C7 says, among other things, that \<^verbatim>\<open>deadlock_detections\<close> is incremented on
  every lock timeout in \<^verbatim>\<open>transfer_timeout\<close>.  The function as written never
  increments it: on a fresh bank the call times out (returns \<open>-1\<close>) and the counter is
  still 0, and after the worker's whole retry loop for that transfer (1001 timeouts,
  \<^verbatim>\<open>retries\<close> at 1001, \<^verbatim>\<open>failed_transfers\<close> at 1) it is still 0.
\<close>

theorem timeout_counts_no_detection:
  "fst (transfer_timeout 0 0 1 5 (fresh_bank 2 1000)) = - 1 \<and>
   deadlock_detections (stats (snd (transfer_timeout 0 0 1 5 (fresh_bank 2 1000)))) = 0 \<and>
   deadlock_detections (stats (timeout_loop 0 0 1 5 0 (fresh_bank 2 1000))) = 0 \<and>
   retries (stats (timeout_loop 0 0 1 5 0 (fresh_bank 2 1000))) = 1001 \<and>
   failed_transfers (stats (timeout_loop 0 0 1 5 0 (fresh_bank 2 1000))) = 1"
  using timeout_loop_0(3) [of 0 0 1 5 "fresh_bank 2 1000"]
  by (simp add: transfer_timeout_fails fresh_bank_def stats0_def)

text \<open>
  Claim C8: \<^verbatim>\<open>transfer_naive\<close> has no failure return (it is \<^verbatim>\<open>void\<close>; the model has
  no return code), and every call that completes has done exactly this, in this
  order: lock \<open>from\<close>, sleep 1 microsecond, lock \<open>to\<close>, subtract the amount from
  \<open>from\<close>, add it to \<open>to\<close>, unlock \<open>to\<close>, unlock \<open>from\<close>, increment
  \<^verbatim>\<open>successful_transfers\<close>.  Afterwards the two balances have changed by the amount,
  both mutexes are free, and of the counters only \<^verbatim>\<open>successful_transfers\<close> has changed,
  by one.
\<close>

theorem transfer_naive_protocol:
  assumes "transfer_naive t from to amount s = Some s'"
  shows "trace s' = trace s @
           [Mutex_lock from, Usleep 1, Mutex_lock to, Balance_sub from amount,
            Balance_add to amount, Mutex_unlock to, Mutex_unlock from,
            Fetch_add Successful_transfers]
         \<and> balance (accounts s' ! from) = balance (accounts s ! from) - amount
         \<and> balance (accounts s' ! to) = balance (accounts s ! to) + amount
         \<and> lock (accounts s' ! from) = None \<and> lock (accounts s' ! to) = None
         \<and> stats s' = (stats s)\<lparr>successful_transfers := successful_transfers (stats s) + 1\<rparr>"
  using assms by (rule naive_effects)

theorem transfer_naive_protocol_witness:
  "transfer_naive 0 0 1 50 (fresh_bank 2 1000) \<noteq> None \<and>
   trace (the (transfer_naive 0 0 1 50 (fresh_bank 2 1000))) =
     [Mutex_lock 0, Usleep 1, Mutex_lock 1, Balance_sub 0 50, Balance_add 1 50,
      Mutex_unlock 1, Mutex_unlock 0, Fetch_add Successful_transfers] \<and>
   balance (accounts (the (transfer_naive 0 0 1 50 (fresh_bank 2 1000))) ! 0) = 950 \<and>
   balance (accounts (the (transfer_naive 0 0 1 50 (fresh_bank 2 1000))) ! 1) = 1050 \<and>
   successful_transfers (stats (the (transfer_naive 0 0 1 50 (fresh_bank 2 1000)))) = 1"
proof -
  obtain s' where s': "transfer_naive 0 0 1 50 (fresh_bank 2 1000) = Some s'"
    by (simp add: transfer_naive_def pthread_mutex_lock_def usleep_def log_event_def
        fresh_bank_def init_accounts_2)
  from transfer_naive_protocol [OF s'] s' show ?thesis
    by (simp add: fresh_bank_def init_accounts_2 stats0_def)
qed

text \<open>
  Claim C9 says that a mode outside 0 to 3 makes \<^verbatim>\<open>main\<close> print the usage message to
  the error stream.  For \<^verbatim>\<open>-m 7\<close> the error stream gets the line \<^verbatim>\<open>Invalid mode\<close>, after
  the first two pieces of the banner on standard output; the usage message is not
  printed.
\<close>

theorem invalid_mode_prints_no_usage:
  "main_start ''bank'' [(CHR ''m'', ''7'')] boot =
     (Exit 1,
      [(Stdout, ''=== Deadlock Lab ===\<newline>'', []), (Stdout, ''Mode: '', []),
       (Stderr, ''Invalid mode\<newline>'', [])],
      boot) \<and>
   stderr_of (fst (snd (main_start ''bank'' [(CHR ''m'', ''7'')] boot))) \<noteq> usage ''bank''"
  by (simp add: main_start_def default_options_def atoi_def strtol_def LONG_MAX_def LONG_MIN_def is_space_def is_digit_def
      stderr_of_def usage_def)

text \<open>
  Claim C9 as amended: when \<^verbatim>\<open>getopt\<close> reports an option other than \<^verbatim>\<open>t\<close>, \<^verbatim>\<open>n\<close>,
  \<^verbatim>\<open>m\<close>, \<^verbatim>\<open>main\<close> prints the usage message to the error stream, and nothing else; when
  the options are fine and the mode, the \<^verbatim>\<open>int\<close> that \<^verbatim>\<open>atoi\<close> returned for the last
  \<^verbatim>\<open>-m\<close>, is outside 0 to 3, it prints the start of the
  banner to standard output and \<^verbatim>\<open>Invalid mode\<close> to the error stream.  In both cases
  it exits with status 1 and the memory is as before: no account has been created.
\<close>

theorem main_rejects_bad_options:
  "((c, a) \<in> set getopts \<and> c \<noteq> CHR ''t'' \<and> c \<noteq> CHR ''n'' \<and> c \<noteq> CHR ''m'' \<longrightarrow>
      main_start argv0 getopts s = (Exit 1, usage argv0, s) \<and>
      stderr_of (usage argv0) = usage argv0) \<and>
   (getopt_loop default_options getopts = Some opts \<and> (main_mode opts < 0 \<or> 3 < main_mode opts) \<longrightarrow>
      main_start argv0 getopts s =
        (Exit 1,
         [(Stdout, ''=== Deadlock Lab ===\<newline>'', []), (Stdout, ''Mode: '', []),
          (Stderr, ''Invalid mode\<newline>'', [])],
         s))"
  by (auto simp: main_start_def getopt_loop_unrecognized stderr_of_def usage_def)

theorem main_rejects_bad_options_witness:
  "main_start ''bank'' [(CHR ''t'', ''4''), (CHR ''?'', [])] boot = (Exit 1, usage ''bank'', boot) \<and>
   getopt_loop default_options [(CHR ''m'', ''-1'')] =
     Some \<lparr>num_threads = 8, transfers_per_thread = 1000, main_mode = - 1\<rparr> \<and>
   main_start ''bank'' [(CHR ''m'', ''-1'')] boot =
     (Exit 1,
      [(Stdout, ''=== Deadlock Lab ===\<newline>'', []), (Stdout, ''Mode: '', []),
       (Stderr, ''Invalid mode\<newline>'', [])],
      boot) \<and>
   accounts boot = []"
proof -
  have g: "getopt_loop default_options [(CHR ''m'', ''-1'')] =
     Some \<lparr>num_threads = 8, transfers_per_thread = 1000, main_mode = - 1\<rparr>"
    by (simp add: default_options_def atoi_def strtol_def LONG_MAX_def LONG_MIN_def is_space_def is_digit_def NUM_THREADS_def
        TRANSFERS_PER_THREAD_def)
  from main_rejects_bad_options [of "CHR ''?''" "[]" "[(CHR ''t'', ''4''), (CHR ''?'', [])]"
      "''bank''" boot]
    main_rejects_bad_options [of _ _ "[(CHR ''m'', ''-1'')]" "''bank''" boot
      "\<lparr>num_threads = 8, transfers_per_thread = 1000, main_mode = - 1\<rparr>"]
    g
  show ?thesis
    by (simp add: boot_def)
qed

text \<open>
  Claim C10: every call of a transfer function that the worker makes has two different
  accounts of the array and an amount from 1 to 10; and when the two drawn account
  numbers are equal the worker draws again with the same loop index \<open>i\<close>.
\<close>

theorem worker_submits_wellformed:
  assumes "worker t args rs s = Some s'"
  shows "(\<exists>evs. trace s' = trace s @ evs \<and> list_all (call_ok (num_accounts args)) evs) \<and>
         (\<forall>i r1 r2 ds s0. i < transfers args \<and> num_accounts args \<noteq> 0 \<and>
            r1 mod num_accounts args = r2 mod num_accounts args \<longrightarrow>
            worker_loop t args i (r1 # r2 # ds) s0 = worker_loop t args i ds s0)"
  using assms worker_loop_calls_ok [of t args 0 rs s s']
  by (simp add: worker_def worker_loop_redraw)

theorem worker_submits_wellformed_witness:
  "worker 0 \<lparr>num_accounts = 10, mode = 2, transfers = 1\<rparr> [3, 13, 4, 5, 17] (fresh_bank 10 1000) =
     Some ((fresh_bank 10 1000)
       \<lparr>stats := stats0\<lparr>successful_transfers := 1\<rparr>,
        trace := [Call 2 4 5 8, Fetch_add Successful_transfers]\<rparr>) \<and>
   list_all (call_ok 10) [Call 2 4 5 8, Fetch_add Successful_transfers]"
proof -
  let ?args = "\<lparr>num_accounts = 10, mode = 2, transfers = 1\<rparr>"
  let ?s' = "(fresh_bank 10 1000)
       \<lparr>stats := stats0\<lparr>successful_transfers := 1\<rparr>,
        trace := [Call 2 4 5 8, Fetch_add Successful_transfers]\<rparr>"
  have run: "worker 0 ?args [3, 13, 4, 5, 17] (fresh_bank 10 1000) = Some ?s'"
    by (simp add: worker_def worker_loop_redraw worker_loop_transfer worker_loop_done
        transfer_ordered_def fetch_add_def log_event_def fresh_bank_def stats0_def)
  from worker_submits_wellformed [OF run] run show ?thesis
    by (simp add: fresh_bank_def)
qed

section \<open>Facts about interleaved runs\<close>

lemma sum_list_update_word:
  "k < length xs \<Longrightarrow> sum_list (xs[k := x]) = sum_list xs - xs ! k + (x :: 'a :: len word)"
  by (induction xs arbitrary: k) (auto split: nat.splits)

lemma total_balance_set_balance:
  "a < length (accounts s) \<Longrightarrow>
   total_balance (set_balance a v s) = total_balance s - balance (accounts s ! a) + v"
  by (simp add: total_balance_def set_balance_def map_update sum_list_update_word)

lemma map_balance_lock_update:
  "map balance (xs[a := (xs ! a)\<lparr>lock := l\<rparr>]) = map balance xs"
  by (cases "a < length xs") (auto simp: list_eq_iff_nth_eq nth_list_update)

lemma total_balance_simps:
  "total_balance (log_event e s) = total_balance s"
  "total_balance (usleep n s) = total_balance s"
  "total_balance (fetch_add c s) = total_balance s"
  "total_balance (pthread_mutex_unlock t a s) = total_balance s"
  by (simp_all add: total_balance_def log_event_def usleep_def fetch_add_def
      pthread_mutex_unlock_def map_balance_lock_update)

lemma total_balance_lock:
  "pthread_mutex_lock t a s = Some s' \<Longrightarrow> total_balance s' = total_balance s"
  by (auto simp: total_balance_def pthread_mutex_lock_def log_event_def map_balance_lock_update
      split: if_splits)

lemma frame_same_accounts: "accounts s' = accounts s \<Longrightarrow> frame t s s'"
  by (simp add: frame_def)

lemma frame_lock:
  "pthread_mutex_lock t a s = Some s' \<Longrightarrow> frame t s s'"
  by (auto simp: frame_def pthread_mutex_lock_def log_event_def nth_list_update split: if_splits)

lemma frame_unlock:
  "a < length (accounts s) \<Longrightarrow> lock (accounts s ! a) = Some t \<Longrightarrow>
   frame t s (pthread_mutex_unlock t a s)"
  by (auto simp: frame_def pthread_mutex_unlock_def log_event_def nth_list_update)

lemma frame_set_balance:
  "a < length (accounts s) \<Longrightarrow> lock (accounts s ! a) = Some t \<Longrightarrow>
   frame t s (log_event e (set_balance a v s))"
  by (auto simp: frame_def set_balance_def log_event_def nth_list_update)

lemma accounts_simps:
  "accounts (log_event e s) = accounts s"
  "accounts (usleep n s) = accounts s"
  "accounts (fetch_add c s) = accounts s"
  by (simp_all add: log_event_def usleep_def fetch_add_def)

lemma thread_step_sound:
  assumes "thread_step args t r th s = Some (th', s')" and "thread_inv t th s"
  shows "thread_inv t th' s' \<and> frame t s s' \<and>
         total_balance s' + owes th' = total_balance s + owes th"
proof (cases "t_pc th")
  case Loop_test
  with assms show ?thesis
    by (auto simp: thread_step_def thread_inv_def owes_def frame_same_accounts accounts_simps
        total_balance_simps Let_def transfer_timeout_def mutex_trylock_timed_def
        transfer_trylock_def transfer_ordered_def split: if_splits)
next
  case Pick_from
  with assms show ?thesis
    by (auto simp: thread_step_def thread_inv_def owes_def frame_same_accounts accounts_simps
        total_balance_simps Let_def transfer_timeout_def mutex_trylock_timed_def
        transfer_trylock_def transfer_ordered_def split: if_splits)
next
  case Pick_to
  with assms show ?thesis
    by (auto simp: thread_step_def thread_inv_def owes_def frame_same_accounts accounts_simps
        total_balance_simps Let_def transfer_timeout_def mutex_trylock_timed_def
        transfer_trylock_def transfer_ordered_def split: if_splits)
next
  case Pick_amount
  with assms show ?thesis
    by (auto simp: thread_step_def thread_inv_def owes_def frame_same_accounts accounts_simps
        total_balance_simps Let_def transfer_timeout_def mutex_trylock_timed_def
        transfer_trylock_def transfer_ordered_def split: if_splits)
next
  case Naive_usleep
  with assms show ?thesis
    by (auto simp: thread_step_def thread_inv_def owes_def frame_same_accounts accounts_simps
        total_balance_simps Let_def transfer_timeout_def mutex_trylock_timed_def
        transfer_trylock_def transfer_ordered_def split: if_splits)
next
  case Naive_load_from
  with assms show ?thesis
    by (auto simp: thread_step_def thread_inv_def owes_def frame_same_accounts accounts_simps
        total_balance_simps Let_def transfer_timeout_def mutex_trylock_timed_def
        transfer_trylock_def transfer_ordered_def split: if_splits)
next
  case Naive_load_to
  with assms show ?thesis
    by (auto simp: thread_step_def thread_inv_def owes_def frame_same_accounts accounts_simps
        total_balance_simps Let_def transfer_timeout_def mutex_trylock_timed_def
        transfer_trylock_def transfer_ordered_def split: if_splits)
next
  case Naive_count
  with assms show ?thesis
    by (auto simp: thread_step_def thread_inv_def owes_def frame_same_accounts accounts_simps
        total_balance_simps Let_def transfer_timeout_def mutex_trylock_timed_def
        transfer_trylock_def transfer_ordered_def split: if_splits)
next
  case Timeout_call
  with assms show ?thesis
    by (auto simp: thread_step_def thread_inv_def owes_def frame_same_accounts accounts_simps
        total_balance_simps Let_def transfer_timeout_def mutex_trylock_timed_def
        transfer_trylock_def transfer_ordered_def split: if_splits)
next
  case Timeout_retries
  with assms show ?thesis
    by (auto simp: thread_step_def thread_inv_def owes_def frame_same_accounts accounts_simps
        total_balance_simps Let_def transfer_timeout_def mutex_trylock_timed_def
        transfer_trylock_def transfer_ordered_def split: if_splits)
next
  case Timeout_failed
  with assms show ?thesis
    by (auto simp: thread_step_def thread_inv_def owes_def frame_same_accounts accounts_simps
        total_balance_simps Let_def transfer_timeout_def mutex_trylock_timed_def
        transfer_trylock_def transfer_ordered_def split: if_splits)
next
  case Timeout_sleep
  with assms show ?thesis
    by (auto simp: thread_step_def thread_inv_def owes_def frame_same_accounts accounts_simps
        total_balance_simps Let_def transfer_timeout_def mutex_trylock_timed_def
        transfer_trylock_def transfer_ordered_def split: if_splits)
next
  case Ordered_call
  with assms show ?thesis
    by (auto simp: thread_step_def thread_inv_def owes_def frame_same_accounts accounts_simps
        total_balance_simps Let_def transfer_timeout_def mutex_trylock_timed_def
        transfer_trylock_def transfer_ordered_def split: if_splits)
next
  case Trylock_call
  with assms show ?thesis
    by (auto simp: thread_step_def thread_inv_def owes_def frame_same_accounts accounts_simps
        total_balance_simps Let_def transfer_timeout_def mutex_trylock_timed_def
        transfer_trylock_def transfer_ordered_def split: if_splits)
next
  case Trylock_retries
  with assms show ?thesis
    by (auto simp: thread_step_def thread_inv_def owes_def frame_same_accounts accounts_simps
        total_balance_simps Let_def transfer_timeout_def mutex_trylock_timed_def
        transfer_trylock_def transfer_ordered_def split: if_splits)
next
  case Trylock_failed
  with assms show ?thesis
    by (auto simp: thread_step_def thread_inv_def owes_def frame_same_accounts accounts_simps
        total_balance_simps Let_def transfer_timeout_def mutex_trylock_timed_def
        transfer_trylock_def transfer_ordered_def split: if_splits)
next
  case Trylock_sleep
  with assms show ?thesis
    by (auto simp: thread_step_def thread_inv_def owes_def frame_same_accounts accounts_simps
        total_balance_simps Let_def transfer_timeout_def mutex_trylock_timed_def
        transfer_trylock_def transfer_ordered_def split: if_splits)
next
  case Returned
  with assms show ?thesis
    by (auto simp: thread_step_def thread_inv_def owes_def frame_same_accounts accounts_simps
        total_balance_simps Let_def transfer_timeout_def mutex_trylock_timed_def
        transfer_trylock_def transfer_ordered_def split: if_splits)
next
  case Naive_lock_from
  with assms have
    l: "pthread_mutex_lock t (t_from th) (log_event (Call 0 (t_from th) (t_to th) (t_amount th)) s) = Some s'"
    and r: "th' = th\<lparr>t_pc := Naive_usleep\<rparr>"
    by (auto simp: thread_step_def split: option.splits)
  from l have "frame t (log_event (Call 0 (t_from th) (t_to th) (t_amount th)) s) s'"
    by (rule frame_lock)
  then have "frame t s s'"
    by (simp add: frame_def accounts_simps)
  moreover from l have "total_balance s' = total_balance s"
    by (simp add: total_balance_lock total_balance_simps)
  moreover from l r have "thread_inv t th' s'"
    by (auto simp: thread_inv_def pthread_mutex_lock_def log_event_def split: if_splits)
  ultimately show ?thesis
    using Naive_lock_from r by (simp add: owes_def)
next
  case Naive_lock_to
  with assms have
    l: "pthread_mutex_lock t (t_to th) s = Some s'"
    and r: "th' = th\<lparr>t_pc := Naive_load_from\<rparr>"
    by (auto simp: thread_step_def split: option.splits)
  from l have "frame t s s'"
    by (rule frame_lock)
  moreover from l have "total_balance s' = total_balance s"
    by (simp add: total_balance_lock)
  moreover from l r assms(2) Naive_lock_to have "thread_inv t th' s'"
    by (auto simp: thread_inv_def pthread_mutex_lock_def log_event_def nth_list_update
        split: if_splits)
  ultimately show ?thesis
    using Naive_lock_to r by (simp add: owes_def)
next
  case Naive_store_from
  with assms have r: "th' = th\<lparr>t_pc := Naive_load_to\<rparr>"
    "s' = log_event (Balance_sub (t_from th) (t_amount th))
            (set_balance (t_from th) (t_tmp th - t_amount th) s)"
    by (auto simp: thread_step_def)
  from assms(2) Naive_store_from have h: "t_from th < length (accounts s)"
    "lock (accounts s ! t_from th) = Some t" "t_tmp th = balance (accounts s ! t_from th)"
    "t_to th < length (accounts s)" "lock (accounts s ! t_to th) = Some t" "t_from th \<noteq> t_to th"
    by (simp_all add: thread_inv_def)
  from h have "frame t s s'"
    unfolding r by (simp add: frame_set_balance)
  moreover from h have "total_balance s' + t_amount th = total_balance s"
    unfolding r by (simp add: total_balance_simps total_balance_set_balance)
  moreover from h have "thread_inv t th' s'"
    unfolding r by (simp add: thread_inv_def set_balance_def log_event_def)
  ultimately show ?thesis
    using Naive_store_from r by (simp add: owes_def)
next
  case Naive_store_to
  with assms have r: "th' = th\<lparr>t_pc := Naive_unlock_to\<rparr>"
    "s' = log_event (Balance_add (t_to th) (t_amount th))
            (set_balance (t_to th) (t_tmp th + t_amount th) s)"
    by (auto simp: thread_step_def)
  from assms(2) Naive_store_to have h: "t_from th < length (accounts s)"
    "lock (accounts s ! t_from th) = Some t" "t_tmp th = balance (accounts s ! t_to th)"
    "t_to th < length (accounts s)" "lock (accounts s ! t_to th) = Some t" "t_from th \<noteq> t_to th"
    by (simp_all add: thread_inv_def)
  from h have "frame t s s'"
    unfolding r by (simp add: frame_set_balance)
  moreover from h have "total_balance s' = total_balance s + t_amount th"
    unfolding r by (simp add: total_balance_simps total_balance_set_balance)
  moreover from h have "thread_inv t th' s'"
    unfolding r by (simp add: thread_inv_def set_balance_def log_event_def)
  ultimately show ?thesis
    using Naive_store_to r by (simp add: owes_def)
next
  case Naive_unlock_to
  with assms have r: "th' = th\<lparr>t_pc := Naive_unlock_from\<rparr>"
    "s' = pthread_mutex_unlock t (t_to th) s"
    by (auto simp: thread_step_def)
  from assms(2) Naive_unlock_to have h: "t_from th < length (accounts s)"
    "lock (accounts s ! t_from th) = Some t"
    "t_to th < length (accounts s)" "lock (accounts s ! t_to th) = Some t" "t_from th \<noteq> t_to th"
    by (simp_all add: thread_inv_def)
  from h have "frame t s s'"
    unfolding r by (simp add: frame_unlock)
  moreover from h have "thread_inv t th' s'"
    unfolding r by (simp add: thread_inv_def pthread_mutex_unlock_def log_event_def)
  ultimately show ?thesis
    using Naive_unlock_to r by (simp add: owes_def total_balance_simps)
next
  case Naive_unlock_from
  with assms have r: "th' = th\<lparr>t_pc := Naive_count\<rparr>"
    "s' = pthread_mutex_unlock t (t_from th) s"
    by (auto simp: thread_step_def)
  from assms(2) Naive_unlock_from have h: "t_from th < length (accounts s)"
    "lock (accounts s ! t_from th) = Some t"
    by (simp_all add: thread_inv_def)
  from h have "frame t s s'"
    unfolding r by (simp add: frame_unlock)
  moreover have "thread_inv t th' s'"
    unfolding r by (simp add: thread_inv_def)
  ultimately show ?thesis
    using Naive_unlock_from r by (simp add: owes_def total_balance_simps)
qed

lemma thread_inv_frame:
  assumes "frame t s s'" and "thread_inv u th s" and "u \<noteq> t"
  shows "thread_inv u th s'"
  using assms by (auto simp: thread_inv_def frame_def)

lemma sum_owes_update:
  "t < length ths \<Longrightarrow>
   sum_list (map owes (ths[t := th'])) = sum_list (map owes ths) - owes (ths ! t) + owes th'"
  by (simp add: map_update sum_list_update_word)

lemma step_bank_inv:
  assumes step: "thread_step args t r (ths ! t) s = Some (th', s')"
    and t: "t < length ths" and inv: "bank_inv money ths s"
  shows "bank_inv money (ths[t := th']) s' \<and> length (accounts s') = length (accounts s)"
proof -
  from inv t have own: "thread_inv t (ths ! t) s"
    by (simp add: bank_inv_def)
  from thread_step_sound [OF step own] have
    th': "thread_inv t th' s'" and fr: "frame t s s'" and
    bal: "total_balance s' + owes th' = total_balance s + owes (ths ! t)"
    by simp_all
  have "thread_inv u ((ths[t := th']) ! u) s'" if "u < length ths" for u
  proof (cases "u = t")
    case True
    with th' t show ?thesis by simp
  next
    case False
    from inv that have "thread_inv u (ths ! u) s"
      by (simp add: bank_inv_def)
    with fr False have "thread_inv u (ths ! u) s'"
      by (simp add: thread_inv_frame)
    with False show ?thesis by simp
  qed
  moreover from inv have "total_balance s + sum_list (map owes ths) = money"
    by (simp add: bank_inv_def)
  then have "total_balance s' + sum_list (map owes (ths[t := th'])) = money"
  proof -
    assume m: "total_balance s + sum_list (map owes ths) = money"
    have "total_balance s' + sum_list (map owes (ths[t := th'])) =
          (total_balance s' + owes th') + sum_list (map owes ths) - owes (ths ! t)"
      using t by (simp add: sum_owes_update)
    also have "\<dots> = total_balance s + sum_list (map owes ths)"
      by (simp add: bal)
    finally show ?thesis
      using m by simp
  qed
  ultimately show ?thesis
    using fr by (simp add: bank_inv_def frame_def)
qed

lemma run_bank_inv:
  "run args schedule (ths, s) = Some (ths', s') \<Longrightarrow> bank_inv money ths s \<Longrightarrow>
   bank_inv money ths' s' \<and> length (accounts s') = length (accounts s)"
proof (induction schedule arbitrary: ths s)
  case Nil
  then show ?case by simp
next
  case (Cons a schedule)
  obtain t r where a: "a = (t, r)" by (cases a)
  from Cons.prems(1) a obtain th1 s1 where
    t: "t < length ths" and step: "thread_step args t r (ths ! t) s = Some (th1, s1)" and
    rest: "run args schedule (ths[t := th1], s1) = Some (ths', s')"
    by (auto split: if_splits option.splits)
  from step_bank_inv [OF step t Cons.prems(2)] have
    "bank_inv money (ths[t := th1]) s1" "length (accounts s1) = length (accounts s)"
    by simp_all
  with Cons.IH [OF rest] show ?case by simp
qed

lemma bank_inv_start:
  "bank_inv (total_balance s) (replicate n new_thread) s"
  by (simp add: bank_inv_def thread_inv_def new_thread_def owes_def sum_list_replicate)

lemma all_joined_owes: "all_joined ths \<Longrightarrow> sum_list (map owes ths) = 0"
  by (induction ths) (simp_all add: all_joined_def owes_def)

lemma main_start_Spawn:
  assumes "main_start argv0 getopts s0 = (Spawn opts, out, s)"
  shows "accounts s = init_accounts NUM_ACCOUNTS INITIAL_BALANCE"
    and "getopt_loop default_options getopts = Some opts"
    and "main_mode opts \<in> {0, 1, 2, 3}"
  using assms
  by (auto simp: main_start_def Let_def split: option.splits if_splits)

text \<open>
  The two embeddings of \<^verbatim>\<open>transfer_naive\<close> agree: the ten steps of a thread from the
  call to the increment, taken without another thread in between, do to the memory
  what the function does, and cannot all be taken exactly when the function blocks.
\<close>

lemma naive_steps_agree:
  assumes "t < length ths" and "t_pc (ths ! t) = Naive_lock_from"
  shows "map_option snd
           (run args [(t, r1), (t, r2), (t, r3), (t, r4), (t, r5), (t, r6), (t, r7), (t, r8),
                      (t, r9), (t, r10)] (ths, s)) =
         transfer_naive t (t_from (ths ! t)) (t_to (ths ! t)) (t_amount (ths ! t))
           (log_event (Call 0 (t_from (ths ! t)) (t_to (ths ! t)) (t_amount (ths ! t))) s)"
  using assms
  by (auto simp: thread_step_def transfer_naive_def pthread_mutex_lock_def
      pthread_mutex_unlock_def usleep_def balance_sub_def balance_add_def set_balance_def
      fetch_add_def log_event_def nth_list_update split: option.splits)

section \<open>Conservation of money\<close>

text \<open>
  Claim C1: in every run that ends, once every worker thread has returned (has been
  joined), the balances add up to \<^verbatim>\<open>NUM_ACCOUNTS * INITIAL_BALANCE\<close> (10 times 1000),
  whatever the mode, the number of threads (at least 1), the transfers per thread, the
  values of \<^verbatim>\<open>rand()\<close> and the interleaving of the threads' steps; so
  \<^verbatim>\<open>verify_total\<close> returns 1 and \<^verbatim>\<open>main\<close> exits with status 0.
\<close>

theorem conservation:
  assumes "main_start argv0 getopts s0 = (Spawn opts, out, s)"
    and "1 \<le> num_threads opts"
    and "run (main_args opts) schedule (replicate (nat (num_threads opts)) new_thread, s) = Some (ths, s')"
    and "all_joined ths"
  shows "total_balance s' = word_of_nat NUM_ACCOUNTS * INITIAL_BALANCE \<and>
         snd (verify_total (accounts s') NUM_ACCOUNTS (word_of_nat NUM_ACCOUNTS * INITIAL_BALANCE)) = 1 \<and>
         snd (main_finish s') = 0"
proof -
  from main_start_Spawn(1) [OF assms(1)] have
    acc: "accounts s = init_accounts NUM_ACCOUNTS INITIAL_BALANCE" .
  then have tot: "total_balance s = word_of_nat NUM_ACCOUNTS * INITIAL_BALANCE"
    by (simp add: total_balance_def sum_init_accounts)
  from run_bank_inv [OF assms(3) bank_inv_start] have
    "bank_inv (total_balance s) ths s'" and len: "length (accounts s') = length (accounts s)"
    by simp_all
  with assms(4) have "total_balance s' = total_balance s"
    by (simp add: bank_inv_def all_joined_owes)
  with tot have t': "total_balance s' = word_of_nat NUM_ACCOUNTS * INITIAL_BALANCE"
    by simp
  from len acc have n: "NUM_ACCOUNTS = length (accounts s')"
    by (simp add: length_init_accounts)
  from t' have v: "snd (verify_total (accounts s') (length (accounts s')) (word_of_nat NUM_ACCOUNTS * INITIAL_BALANCE)) = 1"
    by (simp add: verify_total_iff total_balance_def)
  then have "snd (verify_total (accounts s') NUM_ACCOUNTS (word_of_nat NUM_ACCOUNTS * INITIAL_BALANCE)) = 1"
    using n by simp
  with t' show ?thesis
    by (cases "verify_total (accounts s') NUM_ACCOUNTS (word_of_nat NUM_ACCOUNTS * INITIAL_BALANCE)")
      (simp add: main_finish_def)
qed

theorem conservation_witness:
  "main_start ''bank'' [(CHR ''t'', ''2''), (CHR ''n'', ''1'')] boot =
     (Spawn \<lparr>num_threads = 2, transfers_per_thread = 1, main_mode = 0\<rparr>,
      [(Stdout, ''=== Deadlock Lab ===\<newline>'', []), (Stdout, ''Mode: '', []),
       (Stdout, ''NAIVE (will deadlock)\<newline>'', []),
       (Stdout, ''Threads: %d, Transfers per thread: %d\<newline>\<newline>'', [Arg_int 2, Arg_int 1])],
      boot\<lparr>accounts := init_accounts NUM_ACCOUNTS INITIAL_BALANCE\<rparr>) \<and>
   (\<exists>ths s'.
      run \<lparr>num_accounts = 10, mode = 0, transfers = 1\<rparr>
        [(0, 0), (1, 0), (0, 0), (1, 1), (0, 1), (1, 0), (0, 49), (1, 4),
         (0, 0), (0, 0), (0, 0), (0, 0), (0, 0), (0, 0), (0, 0), (0, 0), (0, 0),
         (1, 0), (1, 0), (1, 0), (1, 0), (1, 0), (1, 0), (1, 0), (1, 0), (1, 0), (1, 0), (1, 0),
         (0, 0), (0, 0)]
        ([new_thread, new_thread], boot\<lparr>accounts := init_accounts NUM_ACCOUNTS INITIAL_BALANCE\<rparr>)
        = Some (ths, s') \<and>
      all_joined ths \<and>
      map balance (accounts s') = [995, 1005, 1000, 1000, 1000, 1000, 1000, 1000, 1000, 1000] \<and>
      total_balance s' = 10000 \<and>
      snd (main_finish s') = 0)"
proof -
  let ?opts = "\<lparr>num_threads = 2, transfers_per_thread = 1, main_mode = 0\<rparr>"
  let ?out = "[(Stdout, ''=== Deadlock Lab ===\<newline>'', []), (Stdout, ''Mode: '', []),
       (Stdout, ''NAIVE (will deadlock)\<newline>'', []),
       (Stdout, ''Threads: %d, Transfers per thread: %d\<newline>\<newline>'', [Arg_int 2, Arg_int 1])]"
  let ?s = "boot\<lparr>accounts := init_accounts NUM_ACCOUNTS INITIAL_BALANCE\<rparr>"
  let ?schedule = "[(0, 0), (1, 0), (0, 0), (1, 1), (0, 1), (1, 0), (0, 49), (1, 4),
         (0, 0), (0, 0), (0, 0), (0, 0), (0, 0), (0, 0), (0, 0), (0, 0), (0, 0),
         (1, 0), (1, 0), (1, 0), (1, 0), (1, 0), (1, 0), (1, 0), (1, 0), (1, 0), (1, 0), (1, 0),
         (0, 0), (0, 0)] :: (tid \<times> nat) list"
  have start: "main_start ''bank'' [(CHR ''t'', ''2''), (CHR ''n'', ''1'')] boot = (Spawn ?opts, ?out, ?s)"
    by (simp add: main_start_def default_options_def atoi_def strtol_def LONG_MAX_def LONG_MIN_def is_space_def is_digit_def
        TRANSFERS_PER_THREAD_def NUM_THREADS_def)
  have threads: "1 \<le> num_threads ?opts"
    by simp
  have "\<exists>ths s'. run (main_args ?opts) ?schedule
          (replicate (nat (num_threads ?opts)) new_thread, ?s) = Some (ths, s') \<and>
        all_joined ths \<and>
        map balance (accounts s') = [995, 1005, 1000, 1000, 1000, 1000, 1000, 1000, 1000, 1000]"
    by (simp add: main_args_def thread_step_def new_thread_def boot_def init_accounts_def upt_rec
        numeral_2_eq_2 NUM_ACCOUNTS_def INITIAL_BALANCE_def pthread_mutex_lock_def
        pthread_mutex_unlock_def usleep_def set_balance_def fetch_add_def log_event_def
        all_joined_def)
  then obtain ths s' where
    run: "run (main_args ?opts) ?schedule (replicate (nat (num_threads ?opts)) new_thread, ?s) = Some (ths, s')"
    and joined: "all_joined ths"
    and balances: "map balance (accounts s') = [995, 1005, 1000, 1000, 1000, 1000, 1000, 1000, 1000, 1000]"
    by (elim exE conjE) (rule that)
  from conservation [OF start threads run joined] have
    "total_balance s' = 10000" "snd (main_finish s') = 0"
    by (simp_all add: NUM_ACCOUNTS_def INITIAL_BALANCE_def)
  moreover from run have
    "run \<lparr>num_accounts = 10, mode = 0, transfers = 1\<rparr> ?schedule ([new_thread, new_thread], ?s) = Some (ths, s')"
    by (simp add: main_args_def NUM_ACCOUNTS_def numeral_2_eq_2)
  ultimately show ?thesis
    using start joined balances
    by (intro conjI exI [of _ ths] exI [of _ s']) assumption+
qed

end
